theory Spec2Isabelle
  imports Complex_Main "HOL-Library.Multiset"
begin

section \<open>The gear cutter of cadbook: path primitive\<close>

text \<open>
  The TypeScript sources compute with \<open>number\<close>. In this development a
  \<open>number\<close> is a \<^typ>\<open>real\<close>: arithmetic is exact, and the values NaN and the
  infinities and the rounding of IEEE doubles are outside the model. The one exception
  is \<open>XForm_rotate_fl64\<close>, where the rounding of each operation is written out.

  A \<open>Pen\<close> (types.ts) is an object with methods \<open>moveTo(x, y)\<close> and
  \<open>arcTo(x, y, turn)\<close>. A pen that is only ever written to (the \<open>target\<close> of a
  filtering pen) is modelled by the list of calls made on it, in order.
\<close>

datatype penop = MoveTo real real | ArcTo real real real

fun penop_point :: "penop \<Rightarrow> real \<times> real" where
  "penop_point (MoveTo x y) = (x, y)"
| "penop_point (ArcTo x y turn) = (x, y)"

text \<open>
  A \<open>PathFunc\<close> is a closure \<open>(pen, doMove) => void\<close>; it is modelled by the calls
  it makes on \<open>pen\<close>, as a function of \<open>doMove\<close>.
\<close>

type_synonym PathFunc = "bool \<Rightarrow> penop list"

subsection \<open>LastPointCapturePen.ts\<close>

text \<open>
  The fields \<open>x\<close> and \<open>y\<close> are \<open>number | undefined\<close> and start out undefined.
\<close>

record LastPointCapturePen =
  lpc_x :: "real option"
  lpc_y :: "real option"

definition new_LastPointCapturePen :: LastPointCapturePen where
  "new_LastPointCapturePen = \<lparr>lpc_x = None, lpc_y = None\<rparr>"

definition LastPointCapturePen_moveTo ::
  "real \<Rightarrow> real \<Rightarrow> LastPointCapturePen \<Rightarrow> LastPointCapturePen" where
  "LastPointCapturePen_moveTo x y p = p\<lparr>lpc_x := Some x, lpc_y := Some y\<rparr>"

definition LastPointCapturePen_arcTo ::
  "real \<Rightarrow> real \<Rightarrow> real \<Rightarrow> LastPointCapturePen \<Rightarrow> LastPointCapturePen" where
  "LastPointCapturePen_arcTo x y turn p = p\<lparr>lpc_x := Some x, lpc_y := Some y\<rparr>"

text \<open>
  \<open>transferMove(target)\<close>: the calls made on \<open>target\<close> and the returned boolean.
\<close>

definition transferMove :: "LastPointCapturePen \<Rightarrow> penop list \<times> bool" where
  "transferMove p =
     (case lpc_x p of
        None \<Rightarrow> ([], False)
      | Some x \<Rightarrow>
          (case lpc_y p of
             None \<Rightarrow> ([], False)
           | Some y \<Rightarrow> ([MoveTo x y], True)))"

text \<open>One call of the pen interface on a capture pen, and a sequence of calls.\<close>

fun LastPointCapturePen_call :: "LastPointCapturePen \<Rightarrow> penop \<Rightarrow> LastPointCapturePen" where
  "LastPointCapturePen_call p (MoveTo x y) = LastPointCapturePen_moveTo x y p"
| "LastPointCapturePen_call p (ArcTo x y turn) = LastPointCapturePen_arcTo x y turn p"

definition LastPointCapturePen_calls :: "penop list \<Rightarrow> LastPointCapturePen" where
  "LastPointCapturePen_calls ops = foldl LastPointCapturePen_call new_LastPointCapturePen ops"


subsection \<open>RecordingPen.ts\<close>

text \<open>
  Errors thrown by the gear cutter, one constructor per \<open>throw\<close> site:
  \<^item> \<open>ArcWithoutMove\<close>: "arc without preceding move in RecordingPen";
  \<^item> \<open>TooFewGearTeeth\<close>: "Can't have less than 4 gear teeth";
  \<^item> \<open>PinionNotFewer\<close>: "Pinion must have fewer teeth than internal gear";
  \<^item> \<open>InvalidSizeNumber n\<close>: "Invalid size number n";
  \<^item> \<open>Thrown msg\<close>: any error thrown by code that is a parameter of this model.
\<close>

datatype error =
  ArcWithoutMove
| TooFewGearTeeth
| PinionNotFewer
| InvalidSizeNumber real
| Thrown string

text \<open>
  The three private arrays of a recorder: for each point of the path its coordinates
  and, in \<open>turns\<close>, \<open>null\<close> (here \<open>None\<close>) for a \<open>moveTo\<close> or the turn of an
  \<open>arcTo\<close>. The methods push, pop and clear the three arrays together, so an index
  below \<open>turns.length\<close> is in range for \<open>xs\<close> and \<open>ys\<close> (part of
  \<open>RecordingPen_inv\<close> below, which every recorder reached from a new one satisfies).
\<close>

record RecordingPen =
  rp_xs :: "real list"
  rp_ys :: "real list"
  rp_turns :: "real option list"

definition new_RecordingPen :: RecordingPen where
  "new_RecordingPen = \<lparr>rp_xs = [], rp_ys = [], rp_turns = []\<rparr>"

definition RecordingPen_reset :: "RecordingPen \<Rightarrow> RecordingPen" where
  "RecordingPen_reset r = \<lparr>rp_xs = [], rp_ys = [], rp_turns = []\<rparr>"

definition RecordingPen_moveTo :: "real \<Rightarrow> real \<Rightarrow> RecordingPen \<Rightarrow> RecordingPen" where
  "RecordingPen_moveTo x y r =
     (let r1 = (if rp_turns r \<noteq> [] \<and> last (rp_turns r) = None
                then \<lparr>rp_xs = butlast (rp_xs r), rp_ys = butlast (rp_ys r),
                      rp_turns = butlast (rp_turns r)\<rparr>
                else r)
      in \<lparr>rp_xs = rp_xs r1 @ [x], rp_ys = rp_ys r1 @ [y], rp_turns = rp_turns r1 @ [None]\<rparr>)"

definition RecordingPen_arcTo ::
  "real \<Rightarrow> real \<Rightarrow> real \<Rightarrow> RecordingPen \<Rightarrow> error + RecordingPen" where
  "RecordingPen_arcTo x y turn r =
     (if rp_turns r = [] then Inl ArcWithoutMove
      else
        let i = length (rp_turns r) - 1;
            dx = x - rp_xs r ! i;
            dy = y - rp_ys r ! i;
            mag2 = dx * dx + dy * dy
        in if mag2 < 1 / 10 ^ 14 then Inr r
           else
             let turn1 = (if mag2 < 1 / 10 ^ 8 then 0 else turn)
             in Inr \<lparr>rp_xs = rp_xs r @ [x], rp_ys = rp_ys r @ [y],
                      rp_turns = rp_turns r @ [Some turn1]\<rparr>)"

text \<open>
  \<open>path(pen, doMove)\<close>. Without \<open>doMove\<close> the first loop skips the leading
  \<open>moveTo\<close> entries: it stops at the number of leading \<open>null\<close>s of \<open>turns\<close>.
\<close>

definition RecordingPen_path :: "RecordingPen \<Rightarrow> PathFunc" where
  "RecordingPen_path r doMove =
     (let i0 = (if doMove then 0 else length (takeWhile (\<lambda>a. a = None) (rp_turns r)))
      in map (\<lambda>i. let x = rp_xs r ! i;
                       y = rp_ys r ! i
                   in case rp_turns r ! i of
                        None \<Rightarrow> MoveTo x y
                      | Some a \<Rightarrow> ArcTo x y a)
           [i0 ..< length (rp_turns r)])"

text \<open>
  \<open>reversedPath(pen, doMove)\<close>. The index \<open>i\<close> starts at \<open>turns.length\<close>. Without
  \<open>doMove\<close> the first loop walks down to the last index that holds an arc, or to
  \<open>-1\<close> when there is none; the second loop runs while \<open>i > 0\<close>, so \<open>-1\<close> and \<open>0\<close>
  both emit nothing, and the natural number below stops at 0. The call for \<open>i\<close> goes to
  point \<open>i - 1\<close> with the turn stored at \<open>i\<close>, negated.
\<close>

definition RecordingPen_reversedPath :: "RecordingPen \<Rightarrow> PathFunc" where
  "RecordingPen_reversedPath r doMove =
     (let n = length (rp_turns r);
          i0 = (if doMove then n
                else n - 1 - length (takeWhile (\<lambda>a. a = None) (rev (rp_turns r))))
      in map (\<lambda>i. let x = rp_xs r ! (i - 1);
                       y = rp_ys r ! (i - 1);
                       a = (if i \<ge> n then None else rp_turns r ! i)
                   in case a of
                        None \<Rightarrow> MoveTo x y
                      | Some a \<Rightarrow> ArcTo x y (- a))
           (rev [1 ..< i0 + 1]))"

definition countSegments :: "RecordingPen \<Rightarrow> nat" where
  "countSegments r = length (filter (\<lambda>t. t \<noteq> None) (rp_turns r))"

text \<open>Driving a recorder through the pen interface; a throw ends the sequence.\<close>

fun RecordingPen_call :: "RecordingPen \<Rightarrow> penop \<Rightarrow> error + RecordingPen" where
  "RecordingPen_call r (MoveTo x y) = Inr (RecordingPen_moveTo x y r)"
| "RecordingPen_call r (ArcTo x y turn) = RecordingPen_arcTo x y turn r"

fun RecordingPen_calls :: "RecordingPen \<Rightarrow> penop list \<Rightarrow> error + RecordingPen" where
  "RecordingPen_calls r [] = Inr r"
| "RecordingPen_calls r (c # cs) =
     (case RecordingPen_call r c of
        Inl e \<Rightarrow> Inl e
      | Inr r1 \<Rightarrow> RecordingPen_calls r1 cs)"

text \<open>
  A recorder whose last entry is a bare \<open>moveTo\<close> that follows other entries, with that
  entry removed (what a further \<open>moveTo\<close> would do before recording itself); any other
  recorder unchanged.
\<close>

definition dropTrailingMove :: "RecordingPen \<Rightarrow> RecordingPen" where
  "dropTrailingMove r =
     (if 2 \<le> length (rp_turns r) \<and> last (rp_turns r) = None
      then \<lparr>rp_xs = butlast (rp_xs r), rp_ys = butlast (rp_ys r),
            rp_turns = butlast (rp_turns r)\<rparr>
      else r)"

text \<open>
  The squared distance \<open>mag2\<close> that \<open>arcTo\<close> computes, between the points at two
  indices of a recorder.
\<close>

definition sqdist :: "RecordingPen \<Rightarrow> nat \<Rightarrow> nat \<Rightarrow> real" where
  "sqdist r i j =
     (rp_xs r ! j - rp_xs r ! i) * (rp_xs r ! j - rp_xs r ! i) +
     (rp_ys r ! j - rp_ys r ! i) * (rp_ys r ! j - rp_ys r ! i)"

text \<open>
  The invariant of a recorder: the three arrays have one length; a \<open>moveTo\<close> entry is
  the first entry or follows an arc; an arc entry is not the first entry, ends at least
  \<open>1e-14\<close> (squared) away from the point before it, and has turn 0 when it ends less
  than \<open>1e-8\<close> (squared) away.
\<close>

definition RecordingPen_inv :: "RecordingPen \<Rightarrow> bool" where
  "RecordingPen_inv r \<longleftrightarrow>
     length (rp_xs r) = length (rp_turns r) \<and>
     length (rp_ys r) = length (rp_turns r) \<and>
     (\<forall>i < length (rp_turns r).
        case rp_turns r ! i of
          None \<Rightarrow> i = 0 \<or> rp_turns r ! (i - 1) \<noteq> None
        | Some a \<Rightarrow>
            0 < i \<and> \<not> sqdist r (i - 1) i < 1 / 10 ^ 14 \<and>
            (sqdist r (i - 1) i < 1 / 10 ^ 8 \<longrightarrow> a = 0))"

text \<open>The first \<open>k\<close> entries of a recorder.\<close>

definition RecordingPen_take :: "nat \<Rightarrow> RecordingPen \<Rightarrow> RecordingPen" where
  "RecordingPen_take k r =
     \<lparr>rp_xs = take k (rp_xs r), rp_ys = take k (rp_ys r), rp_turns = take k (rp_turns r)\<rparr>"

text \<open>
  The recorder that holds the reversed path of \<open>r\<close>: the points in reverse order, a
  \<open>moveTo\<close> first, and then for each point the negated turn of the entry that followed
  it in \<open>r\<close>.
\<close>

definition RecordingPen_reversed :: "RecordingPen \<Rightarrow> RecordingPen" where
  "RecordingPen_reversed r =
     \<lparr>rp_xs = rev (rp_xs r), rp_ys = rev (rp_ys r),
      rp_turns = (if rp_turns r = [] then []
                  else None # map (map_option uminus) (rev (tl (rp_turns r))))\<rparr>"

text \<open>The last entry is not a bare \<open>moveTo\<close> that follows other entries.\<close>

definition noTrailingMove :: "RecordingPen \<Rightarrow> bool" where
  "noTrailingMove r \<longleftrightarrow> length (rp_turns r) \<le> 1 \<or> last (rp_turns r) \<noteq> None"

section \<open>Arc utilities (utils/arcUtils.ts)\<close>

definition versine :: "real \<Rightarrow> real" where
  "versine theta = (let x = sin (theta * 0.5) in 2.0 * x * x)"

definition pointFromForwardAndCrossFactors ::
  "real \<Rightarrow> real \<Rightarrow> real \<Rightarrow> real \<Rightarrow> real \<Rightarrow> real \<Rightarrow> real \<times> real" where
  "pointFromForwardAndCrossFactors x1 y1 x2 y2 ffac cfac =
     (let dx = x2 - x1;
          dy = y2 - y1
      in (x1 + dx * ffac - dy * cfac, y1 + dy * ffac + dx * cfac))"

definition interpolateArcTurn ::
  "real \<Rightarrow> real \<Rightarrow> real \<Rightarrow> real \<Rightarrow> real \<Rightarrow> real \<Rightarrow> real \<times> real" where
  "interpolateArcTurn x1 y1 x2 y2 turn target_turn =
     (let halfturn = turn * 0.5;
          endy = sin halfturn;
          endx = - versine halfturn;
          midy = sin (target_turn - halfturn);
          midx = - versine (target_turn - halfturn);
          scale = 0.5 / endy;
          ffac = midy * scale;
          cfac = (midx - endx) * scale
      in pointFromForwardAndCrossFactors x1 y1 x2 y2 ffac cfac)"

section \<open>Half-plane clipping (ClippingPen.ts)\<close>

text \<open>
  The fields of a \<open>CrappyClippingPen\<close> other than its \<open>target\<close>; the calls made on the
  target are returned by each method.
\<close>

record CrappyClippingPen =
  cp_nx :: real
  cp_ny :: real
  cp_minprod :: real
  cp_tx :: real
  cp_ty :: real
  cp_havePoint :: bool
  cp_isInside :: bool

definition new_CrappyClippingPen :: "real \<Rightarrow> real \<Rightarrow> real \<Rightarrow> CrappyClippingPen" where
  "new_CrappyClippingPen nx ny minprod =
     (let mag = sqrt (nx * nx + ny * ny)
      in \<lparr>cp_nx = nx / mag, cp_ny = ny / mag, cp_minprod = minprod / mag,
          cp_tx = 0, cp_ty = 0, cp_havePoint = False, cp_isInside = False\<rparr>)"

definition CrappyClippingPen_moveTo ::
  "real \<Rightarrow> real \<Rightarrow> CrappyClippingPen \<Rightarrow> CrappyClippingPen \<times> penop list" where
  "CrappyClippingPen_moveTo x y p =
     (let inside = (x * cp_nx p + y * cp_ny p > cp_minprod p)
      in (p\<lparr>cp_tx := x, cp_ty := y, cp_havePoint := True, cp_isInside := inside\<rparr>,
          if inside then [MoveTo x y] else []))"

text \<open>
  \<open>searchForFloat\<close> (utils/floatBinarySearch.ts) is not among the sources: it is the
  parameter \<open>searchForFloat\<close> below, called as in the source with the two ends of the
  interval and the predicate, and returning a pair of which the source takes component
  \<open>[1]\<close> when entering the half plane and component \<open>[0]\<close> when leaving it.
\<close>

definition CrappyClippingPen_arcTo ::
  "(real \<Rightarrow> real \<Rightarrow> (real \<Rightarrow> bool) \<Rightarrow> real \<times> real) \<Rightarrow>
   real \<Rightarrow> real \<Rightarrow> real \<Rightarrow> CrappyClippingPen \<Rightarrow> CrappyClippingPen \<times> penop list" where
  "CrappyClippingPen_arcTo searchForFloat x y turn p =
     (if \<not> cp_havePoint p then CrappyClippingPen_moveTo x y p
      else
        let wasInside = cp_isInside p;
            isInside = (if wasInside then x * cp_nx p + y * cp_ny p \<ge> cp_minprod p
                        else x * cp_nx p + y * cp_ny p > cp_minprod p);
            p1 = p\<lparr>cp_isInside := isInside, cp_tx := x, cp_ty := y\<rparr>
        in if (\<not> wasInside) = (\<not> isInside)
           then (p1, if wasInside then [ArcTo x y turn] else [])
           else if turn < 1 / 10 ^ 6 then
             (let p0 = cp_tx p * cp_nx p + cp_ty p * cp_ny p;
                  p1' = x * cp_nx p + y * cp_ny p;
                  t = (cp_minprod p - p0) / (p1' - p0);
                  mx = cp_tx p + (x - cp_tx p) * t;
                  my = cp_ty p + (y - cp_ty p) * t
              in (p1,
                  if isInside
                  then MoveTo mx my # (if x \<noteq> mx \<or> y \<noteq> my then [ArcTo x y 0] else [])
                  else (if mx \<noteq> cp_tx p \<or> my \<noteq> cp_ty p then [ArcTo mx my 0] else [])))
           else if isInside then
             (let midturn = snd (searchForFloat 0 turn
                    (\<lambda>t. let (mx, my) = interpolateArcTurn (cp_tx p) (cp_ty p) x y turn t
                         in mx * cp_nx p + my * cp_ny p < cp_minprod p));
                  (mx, my) = interpolateArcTurn (cp_tx p) (cp_ty p) x y turn midturn
              in (p1,
                  MoveTo mx my #
                  (if x \<noteq> mx \<or> y \<noteq> my then [ArcTo x y (turn - midturn)] else [])))
           else
             (let midTurn = fst (searchForFloat 0 turn
                    (\<lambda>t. let (mx, my) = interpolateArcTurn (cp_tx p) (cp_ty p) x y turn t
                         in mx * cp_nx p + my * cp_ny p \<ge> cp_minprod p));
                  (mx, my) = interpolateArcTurn (cp_tx p) (cp_ty p) x y turn midTurn
              in (p1,
                  if mx \<noteq> cp_tx p \<or> my \<noteq> cp_ty p then [ArcTo mx my midTurn] else [])))"

text \<open>
  Driving a clipping pen through the pen interface: the final pen and all the calls made
  on the target, in order.
\<close>

fun CrappyClippingPen_call ::
  "(real \<Rightarrow> real \<Rightarrow> (real \<Rightarrow> bool) \<Rightarrow> real \<times> real) \<Rightarrow>
   CrappyClippingPen \<Rightarrow> penop \<Rightarrow> CrappyClippingPen \<times> penop list" where
  "CrappyClippingPen_call sf p (MoveTo x y) = CrappyClippingPen_moveTo x y p"
| "CrappyClippingPen_call sf p (ArcTo x y turn) = CrappyClippingPen_arcTo sf x y turn p"

fun CrappyClippingPen_calls ::
  "(real \<Rightarrow> real \<Rightarrow> (real \<Rightarrow> bool) \<Rightarrow> real \<times> real) \<Rightarrow>
   CrappyClippingPen \<Rightarrow> penop list \<Rightarrow> CrappyClippingPen \<times> penop list" where
  "CrappyClippingPen_calls sf p [] = (p, [])"
| "CrappyClippingPen_calls sf p (c # cs) =
     (let (p1, out1) = CrappyClippingPen_call sf p c;
          (p2, out2) = CrappyClippingPen_calls sf p1 cs
      in (p2, out1 @ out2))"

text \<open>
  The path that reaches the target when \<open>path\<close> is drawn on a fresh clipping pen for
  the line with normal \<open>(nx, ny)\<close> and offset \<open>minprod\<close>.
\<close>

definition clipPath ::
  "(real \<Rightarrow> real \<Rightarrow> (real \<Rightarrow> bool) \<Rightarrow> real \<times> real) \<Rightarrow>
   real \<Rightarrow> real \<Rightarrow> real \<Rightarrow> penop list \<Rightarrow> penop list" where
  "clipPath sf nx ny minprod path =
     snd (CrappyClippingPen_calls sf (new_CrappyClippingPen nx ny minprod) path)"

text \<open>
  The data model's invariant of a path: when it is not empty, its first operation is a
  \<open>moveTo\<close>.
\<close>

fun startsWithMove :: "penop list \<Rightarrow> bool" where
  "startsWithMove [] = True"
| "startsWithMove (MoveTo x y # cs) = True"
| "startsWithMove (ArcTo x y turn # cs) = False"

text \<open>The pen's own test for a point strictly on the keep side of its line.\<close>

definition keepSide :: "CrappyClippingPen \<Rightarrow> penop \<Rightarrow> bool" where
  "keepSide p c = (fst (penop_point c) * cp_nx p + snd (penop_point c) * cp_ny p > cp_minprod p)"

section \<open>Transform compositor (XFormPen.ts)\<close>

text \<open>
  A stage queued in \<open>prevTransform\<close> is a function from pens to pens. The values the
  builder can store there are: a function given to \<open>processInput\<close> by the caller
  (\<open>Custom\<close>, of an arbitrary type \<open>'f\<close>), the factory of a clipping pen made by
  \<open>clip\<close>, the composition \<open>(pen) => p2(p1(pen))\<close> (\<open>Compose p1 p2\<close>), and the
  composition \<open>(pen) => p2(prevX.apply(pen))\<close> with a transform (\<open>ComposeXForm prevX p2\<close>).
\<close>

datatype 'f PenFilter =
  Custom 'f
| ClippingStage real real real
| Compose "'f PenFilter" "'f PenFilter"
| ComposeXForm "'f XForm" "'f PenFilter"
and 'f XForm =
  XForm (xf_prevTransform: "'f PenFilter option") (xf_rotDegrees: real)
    (xf_scaleFactor: real) (xf_flipYinFac: real) (xf_tx: real) (xf_ty: real)

definition new_XForm :: "'f XForm" where
  "new_XForm = XForm None 0 1.0 1.0 0.0 0.0"

text \<open>\<open>Math.floor\<close> is \<open>\<lfloor>_\<rfloor>\<close>, read back as a number.\<close>

fun XForm_rotate :: "real \<Rightarrow> 'f XForm \<Rightarrow> 'f XForm" where
  "XForm_rotate degrees (XForm prev rot sc flip tx ty) =
     (let rot1 = rot + degrees * flip;
          rot2 = rot1 - of_int \<lfloor>rot1 / 360.0\<rfloor> * 360.0
      in XForm prev rot2 sc flip tx ty)"

text \<open>
  In \<open>getXProjection\<close>, \<open>(quarters & 1) == 0\<close> is evaluated only when \<open>quarters\<close> is
  an integer: it tests that this integer is even. \<open>Math.sign\<close> is \<open>sgn\<close>.
\<close>

definition getXProjection :: "'f XForm \<Rightarrow> real \<times> real" where
  "getXProjection X =
     (let xx = cos ((xf_rotDegrees X * pi) / 180.0);
          xy = sin ((xf_rotDegrees X * pi) / 180.0);
          quarters = xf_rotDegrees X / 90;
          (xx1, xy1) =
            (if of_int \<lfloor>quarters\<rfloor> = quarters
             then (if even \<lfloor>quarters\<rfloor> then (sgn xx, 0) else (0, sgn xy))
             else (xx, xy))
      in (xx1 * xf_scaleFactor X, xy1 * xf_scaleFactor X))"

definition XForm_translate :: "real \<Rightarrow> real \<Rightarrow> 'f XForm \<Rightarrow> 'f XForm" where
  "XForm_translate x y X =
     (let (xx, xy) = getXProjection X;
          tx = xf_tx X;
          ty = xf_ty X
      in XForm (xf_prevTransform X) (xf_rotDegrees X) (xf_scaleFactor X) (xf_flipYinFac X)
           (tx + x * xx - y * xf_flipYinFac X * xy)
           (ty + x * xy + y * xf_flipYinFac X * xx))"

text \<open>The parameter \<open>flipY\<close> is optional: \<open>None\<close> is an omitted argument.\<close>

definition XForm_scale :: "real \<Rightarrow> bool option \<Rightarrow> 'f XForm \<Rightarrow> 'f XForm" where
  "XForm_scale fac flipY X =
     (let X1 = (if fac < 0.0
                then (let R = XForm_rotate 180 X
                      in XForm (xf_prevTransform R) (xf_rotDegrees R) (xf_scaleFactor R * (- fac))
                           (xf_flipYinFac R) (xf_tx R) (xf_ty R))
                else XForm (xf_prevTransform X) (xf_rotDegrees X) (xf_scaleFactor X * fac)
                       (xf_flipYinFac X) (xf_tx X) (xf_ty X))
      in if flipY = Some True
         then XForm (xf_prevTransform X1) (xf_rotDegrees X1) (xf_scaleFactor X1)
                (- xf_flipYinFac X1) (xf_tx X1) (xf_ty X1)
         else X1)"

text \<open>
  \<open>processInput\<close> calls itself on \<open>prevX\<close>, a new transform, when the scalars of
  \<open>this\<close> are not the identity; that inner call finds identity scalars and returns at
  once, which is the termination argument.
\<close>

definition isIdentity :: "'f XForm \<Rightarrow> bool" where
  "isIdentity X \<longleftrightarrow>
     xf_rotDegrees X = 0 \<and> xf_flipYinFac X = 1.0 \<and> xf_scaleFactor X = 1.0 \<and>
     xf_tx X = 0.0 \<and> xf_ty X = 0.0"

function XForm_processInput :: "'f PenFilter \<Rightarrow> 'f XForm \<Rightarrow> 'f XForm" where
  "XForm_processInput preprocess X =
     (if isIdentity X
      then (case xf_prevTransform X of
              Some p1 \<Rightarrow>
                XForm (Some (Compose p1 preprocess)) (xf_rotDegrees X) (xf_scaleFactor X)
                  (xf_flipYinFac X) (xf_tx X) (xf_ty X)
            | None \<Rightarrow>
                XForm (Some preprocess) (xf_rotDegrees X) (xf_scaleFactor X)
                  (xf_flipYinFac X) (xf_tx X) (xf_ty X))
      else
        let prevX0 = new_XForm;
            prevX1 = (case xf_prevTransform X of
                        Some p \<Rightarrow> XForm_processInput p prevX0
                      | None \<Rightarrow> prevX0);
            prevX2 = XForm_translate (xf_tx X) (xf_ty X) prevX1;
            prevX3 = XForm_rotate (xf_rotDegrees X) prevX2;
            prevX4 = XForm_scale (xf_scaleFactor X) (Some (xf_flipYinFac X \<noteq> 1.0)) prevX3
        in XForm (Some (ComposeXForm prevX4 preprocess)) 0 1.0 1.0 0.0 0.0)"
  by pat_completeness auto
termination
  by (relation "measure (\<lambda>(preprocess, X). if isIdentity X then 0 else 1)")
    (auto simp: isIdentity_def new_XForm_def)

declare XForm_processInput.simps [simp del]

definition XForm_clip :: "real \<Rightarrow> real \<Rightarrow> real \<Rightarrow> 'f XForm \<Rightarrow> 'f XForm" where
  "XForm_clip nx ny minprod X = XForm_processInput (ClippingStage nx ny minprod) X"

text \<open>The builder calls, and a sequence of them on a new transform.\<close>

datatype 'f XFormCall =
  Rotate real
| Translate real real
| Scale real "bool option"
| Clip real real real
| ProcessInput "'f PenFilter"

fun XForm_call :: "'f XForm \<Rightarrow> 'f XFormCall \<Rightarrow> 'f XForm" where
  "XForm_call X (Rotate degrees) = XForm_rotate degrees X"
| "XForm_call X (Translate x y) = XForm_translate x y X"
| "XForm_call X (Scale fac flipY) = XForm_scale fac flipY X"
| "XForm_call X (Clip nx ny minprod) = XForm_clip nx ny minprod X"
| "XForm_call X (ProcessInput preprocess) = XForm_processInput preprocess X"

definition XForm_calls :: "'f XFormCall list \<Rightarrow> 'f XForm" where
  "XForm_calls calls = foldl XForm_call new_XForm calls"

text \<open>
  \<open>apply(target)\<close> returns an \<open>XFormPen\<close> over \<open>prevTransform(target)\<close>, or over
  \<open>target\<close> when no stage is queued. \<open>XFormPen_call\<close> is the call the \<open>XFormPen\<close>
  makes on that delegate for each call it receives.
\<close>

definition XForm_transformPoint :: "'f XForm \<Rightarrow> real \<Rightarrow> real \<Rightarrow> real \<times> real" where
  "XForm_transformPoint X x y =
     (let (xx, xy) = getXProjection X;
          tx = xf_tx X;
          ty = xf_ty X;
          flipYinFac = xf_flipYinFac X
      in (tx + x * xx - y * flipYinFac * xy, ty + x * xy + y * flipYinFac * xx))"

definition XForm_transformTurn :: "'f XForm \<Rightarrow> real \<Rightarrow> real" where
  "XForm_transformTurn X turn = turn * xf_flipYinFac X"

fun XFormPen_call :: "'f XForm \<Rightarrow> penop \<Rightarrow> penop" where
  "XFormPen_call X (MoveTo x y) =
     (let (newX, newY) = XForm_transformPoint X x y in MoveTo newX newY)"
| "XFormPen_call X (ArcTo x y leftTurnRadians) =
     (let (newX, newY) = XForm_transformPoint X x y
      in ArcTo newX newY (XForm_transformTurn X leftTurnRadians))"

text \<open>
  Rounding in IEEE 754 binary64, for C8. \<open>fl64 x\<close> is the double nearest to the real
  \<open>x\<close>, ties going to the even significand, for results in the normal range
  (\<open>2^(-1022) \<le> \<bar>x\<bar> < 2^1024\<close>): the significand has 53 bits, so \<open>x\<close> is
  rounded to a multiple of \<open>2^e\<close> with \<open>e = \<lfloor>log 2 \<bar>x\<bar>\<rfloor> - 52\<close>. Overflow, subnormal
  numbers and NaN are not modelled.
\<close>

definition roundTiesToEven :: "real \<Rightarrow> int" where
  "roundTiesToEven z =
     (let f = \<lfloor>z\<rfloor>
      in if z - of_int f < 1 / 2 then f
         else if z - of_int f > 1 / 2 then f + 1
         else if even f then f else f + 1)"

definition fl64 :: "real \<Rightarrow> real" where
  "fl64 x =
     (if x = 0 then 0
      else
        let e = \<lfloor>log 2 \<bar>x\<bar>\<rfloor> - 52
        in of_int (roundTiesToEven (x / 2 powr of_int e)) * 2 powr of_int e)"

text \<open>
  \<open>rotate(degrees)\<close> as a JavaScript engine runs it: every arithmetic operation of
  the two statements \<open>this.rotDegrees += degrees * this.flipYinFac\<close> and
  \<open>this.rotDegrees -= Math.floor(this.rotDegrees / 360.0) * 360.0\<close> returns the
  rounded result; \<open>Math.floor\<close> is exact.
\<close>

fun XForm_rotate_fl64 :: "real \<Rightarrow> 'f XForm \<Rightarrow> 'f XForm" where
  "XForm_rotate_fl64 degrees (XForm prev rot sc flip tx ty) =
     (let rot1 = fl64 (rot + fl64 (degrees * flip));
          rot2 = fl64 (rot1 - fl64 (of_int \<lfloor>fl64 (rot1 / 360.0)\<rfloor> * 360.0))
      in XForm prev rot2 sc flip tx ty)"

text \<open>The normalisation that the builder aims at.\<close>

definition XForm_inv :: "'f XForm \<Rightarrow> bool" where
  "XForm_inv X \<longleftrightarrow> 0 \<le> xf_rotDegrees X \<and> xf_rotDegrees X < 360 \<and> 0 \<le> xf_scaleFactor X"

section \<open>Priority queue (utils/pq.ts)\<close>

text \<open>
  A \<open>PriorityQueueElement\<close> is a tuple \<open>[priority, ...rest]\<close>: a pair of the priority
  and the rest. The queue is the array \<open>q\<close>; \<open>pqpush\<close> and \<open>pqpop\<close> change it in place
  and are modelled by functions that return the new array. \<open>((pos - 1) / 2) | 0\<close> is the
  integer quotient, as \<open>pos - 1\<close> is a non-negative index.
\<close>

type_synonym 'a PriorityQueueElement = "real \<times> 'a"

text \<open>The \<open>while\<close> loop of \<open>pqpush\<close>, from the state \<open>(q, pos)\<close>.\<close>

function pqpush_loop :: "'a PriorityQueueElement list \<Rightarrow> nat \<Rightarrow> 'a PriorityQueueElement list" where
  "pqpush_loop q pos =
     (if pos > 0 then
        (let parpos = (pos - 1) div 2
         in if fst (q ! parpos) \<le> fst (q ! pos) then q
            else pqpush_loop (q[parpos := q ! pos, pos := q ! parpos]) parpos)
      else q)"
  by pat_completeness auto
termination
  by (relation "measure (\<lambda>(q, pos). pos)") auto

declare pqpush_loop.simps [simp del]

definition pqpush :: "'a PriorityQueueElement list \<Rightarrow> 'a PriorityQueueElement \<Rightarrow> 'a PriorityQueueElement list" where
  "pqpush q val = (let pos = length q in pqpush_loop (q @ [val]) pos)"

text \<open>The \<open>while\<close> loop of \<open>pqpop\<close>, from the state \<open>(q, pos, leftpos)\<close>.\<close>

function pqpop_loop :: "'a PriorityQueueElement list \<Rightarrow> nat \<Rightarrow> nat \<Rightarrow> 'a PriorityQueueElement list" where
  "pqpop_loop q pos leftpos =
     (if leftpos < length q then
        (let minpos0 = pos;
             minpos1 = (if fst (q ! minpos0) > fst (q ! leftpos) then leftpos else minpos0);
             rightpos = leftpos + 1;
             minpos = (if rightpos < length q \<and> fst (q ! minpos1) > fst (q ! rightpos)
                       then rightpos else minpos1)
         in if minpos = pos then q
            else pqpop_loop (q[pos := q ! minpos, minpos := q ! pos]) minpos (minpos * 2 + 1))
      else q)"
  by pat_completeness auto
termination
  by (relation "measure (\<lambda>(q, pos, leftpos). length q - leftpos)") (auto split: if_splits)

declare pqpop_loop.simps [simp del]

text \<open>
  \<open>pqpop(q)\<close>: the returned element (\<open>None\<close> for \<open>undefined\<close>) and the new array.
  \<open>q.shift()\<close> removes and returns the first element; \<open>q[0] = q.pop()\<close> removes the last
  element and stores it at index 0.
\<close>

definition pqpop :: "'a PriorityQueueElement list \<Rightarrow> 'a PriorityQueueElement option \<times> 'a PriorityQueueElement list" where
  "pqpop q =
     (if length q = 0 then (None, q)
      else if length q < 2 then (Some (hd q), tl q)
      else
        let ret = q ! 0;
            q1 = (butlast q)[0 := last q]
        in (Some ret, pqpop_loop q1 0 1))"

text \<open>
  The min-heap order on priorities: every element other than the root is at least its
  parent, the element at index \<open>(i - 1) div 2\<close>.
\<close>

definition heapOrdered :: "'a PriorityQueueElement list \<Rightarrow> bool" where
  "heapOrdered q \<longleftrightarrow> (\<forall>i\<in>{1 ..< length q}. fst (q ! ((i - 1) div 2)) \<le> fst (q ! i))"

text \<open>
  The loop invariants: the heap order may fail between \<open>pos\<close> and its parent (sifting
  up), or between \<open>pos\<close> and its children (sifting down); in both, the children of
  \<open>pos\<close> are at least the parent of \<open>pos\<close>.
\<close>

definition heapExceptUp :: "'a PriorityQueueElement list \<Rightarrow> nat \<Rightarrow> bool" where
  "heapExceptUp q pos \<longleftrightarrow>
     (\<forall>i. 0 < i \<and> i < length q \<and> i \<noteq> pos \<longrightarrow> fst (q ! ((i - 1) div 2)) \<le> fst (q ! i)) \<and>
     (\<forall>i. 0 < i \<and> i < length q \<and> (i - 1) div 2 = pos \<and> 0 < pos \<longrightarrow>
          fst (q ! ((pos - 1) div 2)) \<le> fst (q ! i))"

definition heapExceptDown :: "'a PriorityQueueElement list \<Rightarrow> nat \<Rightarrow> bool" where
  "heapExceptDown q pos \<longleftrightarrow>
     (\<forall>i. 0 < i \<and> i < length q \<and> (i - 1) div 2 \<noteq> pos \<longrightarrow> fst (q ! ((i - 1) div 2)) \<le> fst (q ! i)) \<and>
     (\<forall>i. 0 < i \<and> i < length q \<and> (i - 1) div 2 = pos \<and> 0 < pos \<longrightarrow>
          fst (q ! ((pos - 1) div 2)) \<le> fst (q ! i))"

text \<open>The child chosen by one round of the loop of pqpop.\<close>

definition minChild :: "'a PriorityQueueElement list \<Rightarrow> nat \<Rightarrow> nat" where
  "minChild q pos =
     (let leftpos = pos * 2 + 1;
          minpos1 = (if fst (q ! pos) > fst (q ! leftpos) then leftpos else pos);
          rightpos = leftpos + 1
      in if rightpos < length q \<and> fst (q ! minpos1) > fst (q ! rightpos) then rightpos
         else minpos1)"

section \<open>Rack profile (rack.ts)\<close>

record RackProps =
  contactRatio :: real
  pressureAngle :: real
  profileShift :: real
  balancePercent :: real
  balanceAbsPercent :: real
  topClrPercent :: real
  botClrPercent :: real

definition makeRack :: "RackProps \<Rightarrow> PathFunc" where
  "makeRack props =
     (let sinPA = sin ((pressureAngle props * pi) / 180.0);
          cosPA = cos ((pressureAngle props * pi) / 180.0);
          tanPA = sinPA / cosPA;
          ah = contactRatio props * sinPA * cosPA;
          cy = profileShift props / (100 * pi);
          miny0 = cy - ah / 2;
          maxy0 = cy + ah / 2;
          bkw = balanceAbsPercent props / (200 * pi);
          freew = 0.5 - ah * tanPA;
          cx = - 0.25 - (freew * (balancePercent props - 50)) / 100;
          maxy = maxy0 + topClrPercent props / (100 * pi);
          miny = miny0 - botClrPercent props / (100 * pi);
          topx = (maxy - cy) * tanPA + cx;
          botx = (miny - cy) * tanPA + cx
      in (\<lambda>doMove.
            (if doMove then [MoveTo (- 1.0 - botx + bkw) miny] else []) @
            [ArcTo (botx - bkw) miny 0,
             ArcTo (topx - bkw) maxy 0,
             ArcTo (- topx + bkw) maxy 0,
             ArcTo (- botx + bkw) miny 0]))"

text \<open>
  The rack of a gear pair with every optional property left at its default and no
  clearance: contact ratio 1.5, pressure angle 20 degrees, balance 50 percent.
\<close>

definition defaultRackProps :: RackProps where
  "defaultRackProps =
     \<lparr>contactRatio = 1.5, pressureAngle = 20, profileShift = 0, balancePercent = 50,
      balanceAbsPercent = 0, topClrPercent = 0, botClrPercent = 0\<rparr>"

section \<open>Gear assembly (index.ts)\<close>

text \<open>
  \<open>GearPairSizeType\<close> is \<open>'mod' | 'diaPitch' | 'centerDist'\<close>. An optional property of
  \<open>GearPairProps\<close> is an \<open>option\<close>; \<open>props.p ?? d\<close> is \<open>orDefault (p props) d\<close>.
\<close>

datatype GearPairSizeType = SizeMod | SizeDiaPitch | SizeCenterDist

record GearPairProps =
  gp_clearanceModPercent :: "real option"
  gp_backlashModPercent :: "real option"
  gp_balancePercent :: "real option"
  gp_pressureAngle :: "real option"
  gp_targetContactRatio :: "real option"
  gp_profileShiftPercent :: "real option"
  gp_gearTeeth :: real
  gp_pinionTeeth :: real
  gp_isInternalGear :: "bool option"
  gp_isMaxFillet :: "bool option"
  gp_faceToleranceModPercent :: "real option"
  gp_filletToleranceModPercent :: "real option"
  gp_sizeType :: GearPairSizeType
  gp_size :: real

text \<open>
  A sketch of the result is the closure
  \<open>(pen) => drawGearFromTooth(new GearCutterPenAdapter(pen), true, scale, path, nTeeth)\<close>;
  it is represented by the three values it captures.
\<close>

record Sketch =
  sk_scale :: real
  sk_path :: PathFunc
  sk_nTeeth :: real

record GearPairResult =
  gear :: Sketch
  pinion :: Sketch
  gearPitchDiameter :: real
  pinionPitchDiameter :: real
  gearArcsPerTooth :: nat
  pinionArcsPerTooth :: nat

text \<open>
  The class \<open>ToothCutter\<close> (ToothCutter.ts) is not among the sources. It is a parameter:
  \<open>ToothCutter env nTeeth radius faceT filletT received\<close> stands for constructing
  \<open>new ToothCutter(nTeeth, radius, faceT, filletT)\<close>, drawing the calls \<open>received\<close> on
  it, and calling \<open>drawToothPath(pen, true)\<close>; the result is the error thrown on the way
  or the calls made on \<open>pen\<close>. The two fillet passes (InitialMaxFilletPen.ts) are
  parameters as well: no property below depends on what they compute.
\<close>

record GearCutterEnv =
  ToothCutter :: "real \<Rightarrow> real \<Rightarrow> real \<Rightarrow> real \<Rightarrow> penop list \<Rightarrow> error + penop list"
  applyMaxToothFillet :: "PathFunc \<Rightarrow> error + PathFunc"
  applyInternalToothFillet :: "PathFunc \<Rightarrow> error + PathFunc"

text \<open>
  The work \<open>createGearPair\<close> hands out, in the order of the calls: a rack made by
  \<open>makeRack\<close>, a tooth cut by a \<open>ToothCutter\<close> (with its constructor arguments and the
  rack path it received), a fillet pass.
\<close>

datatype event =
  RackMade RackProps
| ToothCut real real real real "penop list"
| FilletPass

definition DEFAULT_CLEARANCE_PERCENT :: real where "DEFAULT_CLEARANCE_PERCENT = 15"
definition DEFAULT_BACKLASH_PERCENT :: real where "DEFAULT_BACKLASH_PERCENT = 0"
definition DEFAULT_BALANCE_PERCENT :: real where "DEFAULT_BALANCE_PERCENT = 50"
definition DEFAUT_PRESSURE_ANGLE :: real where "DEFAUT_PRESSURE_ANGLE = 20"
definition DEFAULT_CONTACT_RATIO :: real where "DEFAULT_CONTACT_RATIO = 1.5"
definition DEFAULT_PROFILE_SHIFT_PERCENT :: real where "DEFAULT_PROFILE_SHIFT_PERCENT = 0"
definition DEFAULT_IS_INTERNAL :: bool where "DEFAULT_IS_INTERNAL = False"
definition DEFAULT_MAX_FILLET :: bool where "DEFAULT_MAX_FILLET = False"
definition DEFAULT_FACE_TOL :: real where "DEFAULT_FACE_TOL = 0.05"
definition DEFAULT_FILLET_TOL :: real where "DEFAULT_FILLET_TOL = 0.5"

definition orDefault :: "'a option \<Rightarrow> 'a \<Rightarrow> 'a" where
  "orDefault v d = (case v of Some a \<Rightarrow> a | None \<Rightarrow> d)"

text \<open>
  The statements from \<open>new ToothCutter(...)\<close> to \<open>countSegments()\<close>, which
  \<open>createGearPair\<close> runs once for the pinion and once for the gear: the rack is drawn
  through \<open>new XForm().rotate(-90).translate(0, radius)\<close> on the cutter, the tooth path
  is drawn on a new recorder, and with \<open>maxFillet\<close> the recorder is reset and the
  filleted path drawn on it. The result is the log of the work, and the error thrown or
  the final path and recorder.
\<close>

definition cutTooth ::
  "GearCutterEnv \<Rightarrow> real \<Rightarrow> real \<Rightarrow> real \<Rightarrow> real \<Rightarrow> PathFunc \<Rightarrow> bool \<Rightarrow>
   (PathFunc \<Rightarrow> error + PathFunc) \<Rightarrow> event list \<times> (error + PathFunc \<times> RecordingPen)" where
  "cutTooth env nTeeth radius faceT filletT rack maxFillet fillet =
     (let X = XForm_translate 0 radius (XForm_rotate (- 90) (new_XForm :: unit XForm));
          received = map (XFormPen_call X) (rack True);
          log = [ToothCut nTeeth radius faceT filletT received]
      in case ToothCutter env nTeeth radius faceT filletT received of
           Inl e \<Rightarrow> (log, Inl e)
         | Inr toothPath \<Rightarrow>
             (case RecordingPen_calls new_RecordingPen toothPath of
                Inl e \<Rightarrow> (log, Inl e)
              | Inr recorder \<Rightarrow>
                  if \<not> maxFillet then (log, Inr (RecordingPen_path recorder, recorder))
                  else
                    (case fillet (RecordingPen_path recorder) of
                       Inl e \<Rightarrow> (log @ [FilletPass], Inl e)
                     | Inr path \<Rightarrow>
                         (case RecordingPen_calls (RecordingPen_reset recorder) (path True) of
                            Inl e \<Rightarrow> (log @ [FilletPass], Inl e)
                          | Inr recorder2 \<Rightarrow> (log @ [FilletPass], Inr (path, recorder2))))))"

text \<open>
  \<open>createGearPair(props)\<close>: the log of the work handed out, and the error thrown or the
  result. \<open>!isFinite(sizeNumber)\<close> is false of every real.
\<close>

definition createGearPair ::
  "GearCutterEnv \<Rightarrow> GearPairProps \<Rightarrow> event list \<times> (error + GearPairResult)" where
  "createGearPair env props =
     (let clearancePercent = orDefault (gp_clearanceModPercent props) DEFAULT_CLEARANCE_PERCENT;
          backlashPercent = orDefault (gp_backlashModPercent props) DEFAULT_BACKLASH_PERCENT;
          pressureAngle = orDefault (gp_pressureAngle props) DEFAUT_PRESSURE_ANGLE;
          contactRatio = orDefault (gp_targetContactRatio props) DEFAULT_CONTACT_RATIO;
          profileShift = orDefault (gp_profileShiftPercent props) DEFAULT_PROFILE_SHIFT_PERCENT;
          gearTeeth = gp_gearTeeth props;
          pinionTeeth = gp_pinionTeeth props;
          isInternal = orDefault (gp_isInternalGear props) DEFAULT_IS_INTERNAL;
          maxFillet = orDefault (gp_isMaxFillet props) DEFAULT_MAX_FILLET;
          balancePercent = orDefault (gp_balancePercent props) DEFAULT_BALANCE_PERCENT;
          faceTolPercent = orDefault (gp_faceToleranceModPercent props) DEFAULT_FACE_TOL;
          filletTolPercent = orDefault (gp_filletToleranceModPercent props) DEFAULT_FILLET_TOL;
          sizeNumber = gp_size props;
          sizeMeasurement = gp_sizeType props
      in if gearTeeth < 4 then ([], Inl TooFewGearTeeth)
         else if isInternal \<and> gearTeeth \<le> pinionTeeth then ([], Inl PinionNotFewer)
         else
           let gearRadius = (gearTeeth * 0.5) / pi;
               pinionRadius = (pinionTeeth * 0.5) / pi;
               szLen = (if sizeMeasurement = SizeDiaPitch then 1.0
                        else if sizeMeasurement = SizeCenterDist
                        then gearRadius + (if isInternal then - pinionRadius else pinionRadius)
                        else 1.0 / pi)
           in if sizeNumber \<le> 0 then ([], Inl (InvalidSizeNumber sizeNumber))
              else
                let scale = sizeNumber / szLen;
                    rackProps =
                      \<lparr>contactRatio = contactRatio, pressureAngle = pressureAngle,
                       profileShift = profileShift, balancePercent = balancePercent,
                       balanceAbsPercent = 0.0, topClrPercent = 0, botClrPercent = 0\<rparr>;
                    pinionRackProps =
                      rackProps\<lparr>botClrPercent := clearancePercent,
                                balanceAbsPercent := backlashPercent * (- 0.5)\<rparr>;
                    pinionRack = makeRack pinionRackProps;
                    gearRackProps =
                      rackProps\<lparr>balancePercent :=
                                  (if isInternal then RackProps.balancePercent rackProps
                                   else 100 - RackProps.balancePercent rackProps),
                                profileShift := (if isInternal then profileShift else - profileShift),
                                botClrPercent := (if isInternal then 0 else clearancePercent),
                                topClrPercent := (if isInternal then clearancePercent else 0),
                                balanceAbsPercent :=
                                  backlashPercent * (if isInternal then 0.5 else - 0.5)\<rparr>;
                    gearRack = makeRack gearRackProps;
                    racks = [RackMade pinionRackProps, RackMade gearRackProps];
                    faceT = faceTolPercent / (100 * pi);
                    filletT = filletTolPercent / (100 * pi)
                in case cutTooth env pinionTeeth pinionRadius faceT filletT pinionRack maxFillet
                          (applyMaxToothFillet env) of
                     (log1, Inl e) \<Rightarrow> (racks @ log1, Inl e)
                   | (log1, Inr (pinionPath, pinionRecorder)) \<Rightarrow>
                       let pinionArcsPerTooth = countSegments pinionRecorder
                       in case cutTooth env gearTeeth gearRadius faceT filletT gearRack maxFillet
                                 (if isInternal then applyInternalToothFillet env
                                  else applyMaxToothFillet env) of
                            (log2, Inl e) \<Rightarrow> (racks @ log1 @ log2, Inl e)
                          | (log2, Inr (gearPath, gearRecorder)) \<Rightarrow>
                              let gearArcsPerTooth = countSegments gearRecorder
                              in (racks @ log1 @ log2,
                                  Inr \<lparr>gear = \<lparr>sk_scale = scale, sk_path = gearPath,
                                                sk_nTeeth = gearTeeth\<rparr>,
                                       pinion = \<lparr>sk_scale = scale, sk_path = pinionPath,
                                                  sk_nTeeth = pinionTeeth\<rparr>,
                                       gearPitchDiameter = gearRadius * 2.0 * scale,
                                       pinionPitchDiameter = pinionRadius * 2.0 * scale,
                                       gearArcsPerTooth = gearArcsPerTooth,
                                       pinionArcsPerTooth = pinionArcsPerTooth\<rparr>))"

text \<open>
  An instance of the parameters for closed examples: a cutter that returns the rack path
  it received as the tooth path, and fillet passes that return their argument.
\<close>

definition replayEnv :: GearCutterEnv where
  "replayEnv =
     \<lparr>ToothCutter = (\<lambda>nTeeth radius faceT filletT received. Inr received),
      applyMaxToothFillet = (\<lambda>path. Inr path),
      applyInternalToothFillet = (\<lambda>path. Inr path)\<rparr>"

text \<open>
  The properties \<open>{gearTeeth: 40, pinionTeeth: 12, sizeType: 'mod', size: 2,
  pressureAngle: 20}\<close>.
\<close>

definition props_40_12 :: GearPairProps where
  "props_40_12 =
     \<lparr>gp_clearanceModPercent = None, gp_backlashModPercent = None, gp_balancePercent = None,
      gp_pressureAngle = Some 20, gp_targetContactRatio = None, gp_profileShiftPercent = None,
      gp_gearTeeth = 40, gp_pinionTeeth = 12, gp_isInternalGear = None, gp_isMaxFillet = None,
      gp_faceToleranceModPercent = None, gp_filletToleranceModPercent = None,
      gp_sizeType = SizeMod, gp_size = 2\<rparr>"

section \<open>Theorems\<close>

subsection \<open>LastPointCapturePen\<close>

lemma LastPointCapturePen_call_point:
  "LastPointCapturePen_call p c =
     p\<lparr>lpc_x := Some (fst (penop_point c)), lpc_y := Some (snd (penop_point c))\<rparr>"
  by (cases c) (simp_all add: LastPointCapturePen_moveTo_def LastPointCapturePen_arcTo_def)

lemma LastPointCapturePen_calls_snoc:
  "LastPointCapturePen_calls (ops @ [c]) =
     LastPointCapturePen_call (LastPointCapturePen_calls ops) c"
  by (simp add: LastPointCapturePen_calls_def)

text \<open>
  C10. On a capture pen that has received no \<open>moveTo\<close> and no \<open>arcTo\<close>,
  \<open>transferMove\<close> makes no call on the target and returns false. After any non-empty
  sequence of \<open>moveTo\<close>/\<open>arcTo\<close> calls it makes exactly one call on the target, a
  \<open>moveTo\<close> of the point of the last call received, and returns true.
\<close>

theorem transferMove_last_point:
  "transferMove new_LastPointCapturePen = ([], False) \<and>
   (ops \<noteq> [] \<longrightarrow>
      transferMove (LastPointCapturePen_calls ops) =
        ([MoveTo (fst (penop_point (last ops))) (snd (penop_point (last ops)))], True))"
proof (intro conjI impI)
  show "transferMove new_LastPointCapturePen = ([], False)"
    by (simp add: transferMove_def new_LastPointCapturePen_def)
next
  assume "ops \<noteq> []"
  then obtain bs c where ops: "ops = bs @ [c]"
    by (metis rev_exhaust)
  show "transferMove (LastPointCapturePen_calls ops) =
        ([MoveTo (fst (penop_point (last ops))) (snd (penop_point (last ops)))], True)"
    unfolding ops LastPointCapturePen_calls_snoc LastPointCapturePen_call_point
    by (simp add: transferMove_def)
qed

theorem transferMove_last_point_witness:
  "transferMove new_LastPointCapturePen = ([], False) \<and>
   [MoveTo 1 2, ArcTo 3 4 (1 / 2)] \<noteq> [] \<and>
   transferMove (LastPointCapturePen_calls [MoveTo 1 2, ArcTo 3 4 (1 / 2)]) =
     ([MoveTo 3 4], True)"
  using transferMove_last_point [of "[MoveTo 1 2, ArcTo 3 4 (1 / 2)]"]
  by simp

subsection \<open>interpolateArcTurn\<close>

lemma versine_minus: "versine (- t) = versine t"
  by (simp add: versine_def Let_def)

lemma interpolateArcTurn_at_0:
  assumes "sin (turn * 0.5) \<noteq> 0"
  shows "interpolateArcTurn x1 y1 x2 y2 turn 0 =
           (x1 - (x2 - x1) * 0.5, y1 - (y2 - y1) * 0.5)"
  using assms
  by (simp add: interpolateArcTurn_def pointFromForwardAndCrossFactors_def Let_def
      versine_minus)

lemma interpolateArcTurn_at_turn:
  assumes "sin (turn * 0.5) \<noteq> 0"
  shows "interpolateArcTurn x1 y1 x2 y2 turn turn =
           (x1 + (x2 - x1) * 0.5, y1 + (y2 - y1) * 0.5)"
proof -
  have "turn - turn * 0.5 = turn * 0.5"
    by simp
  then show ?thesis
    using assms
    by (simp add: interpolateArcTurn_def pointFromForwardAndCrossFactors_def Let_def)
qed

text \<open>
  C1. The claim is that \<open>interpolateArcTurn(x1,y1,x2,y2,turn,0)\<close> is \<open>(x1,y1)\<close> and
  \<open>interpolateArcTurn(x1,y1,x2,y2,turn,turn)\<close> is \<open>(x2,y2)\<close>. The function as written
  measures the forward factor from the chord's midpoint (it ranges over \<open>[-1/2, 1/2]\<close>)
  but applies it from \<open>(x1,y1)\<close>: on the half circle from \<open>(0,0)\<close> to \<open>(2,0)\<close>
  (\<open>turn = \<pi>\<close>) it returns \<open>(-1,0)\<close> at target turn 0 and the chord's midpoint
  \<open>(1,0)\<close> at target turn \<open>\<pi>\<close>, in exact arithmetic.
\<close>

theorem interpolateArcTurn_half_circle:
  "interpolateArcTurn 0 0 2 0 pi 0 = (- 1, 0) \<and>
   interpolateArcTurn 0 0 2 0 pi pi = (1, 0)"
proof -
  have s: "sin (pi * 0.5) \<noteq> 0"
    by simp
  show ?thesis
    using interpolateArcTurn_at_0 [OF s, of 0 0 2 0]
      interpolateArcTurn_at_turn [OF s, of 0 0 2 0]
    by simp
qed

subsection \<open>makeRack\<close>

text \<open>
  C3 (as amended). For every \<open>RackProps\<close>, the path of \<open>makeRack\<close> drawn with
  \<open>doMove = true\<close> is one \<open>moveTo\<close> followed by four \<open>arcTo\<close> calls, each with
  turn 0; without \<open>doMove\<close> it is the same four \<open>arcTo\<close> calls. The last point has
  the \<open>y\<close> of the first and lies exactly 1 further in \<open>x\<close>: the outline is one
  period of the rack, in units where the circular pitch is 1.
\<close>

theorem makeRack_outline:
  "\<exists>sx sy ax ay bx byy cx ex.
     makeRack props True =
       [MoveTo sx sy, ArcTo ax ay 0, ArcTo bx byy 0, ArcTo cx byy 0, ArcTo ex sy 0] \<and>
     makeRack props False =
       [ArcTo ax ay 0, ArcTo bx byy 0, ArcTo cx byy 0, ArcTo ex sy 0] \<and>
     ay = sy \<and> ex - sx = 1"
  by (simp add: makeRack_def Let_def)

text \<open>
  C3 as stated fails: for the rack of the default gear pair (contact ratio 1.5, pressure
  angle 20 degrees, balance 50 percent) the end point is 1 to the right of the start
  point, not \<open>2\<pi>\<close>, and so the outline is not closed either.
\<close>

theorem makeRack_pitch_counterexample:
  "\<not> (fst (penop_point (last (makeRack defaultRackProps True))) -
        fst (penop_point (hd (makeRack defaultRackProps True))) = 2 * pi) \<and>
   penop_point (last (makeRack defaultRackProps True)) \<noteq>
     penop_point (hd (makeRack defaultRackProps True))"
proof -
  have "2 * pi > 1"
    using pi_ge_two by linarith
  then show ?thesis
    by (simp add: makeRack_def Let_def defaultRackProps_def)
qed

subsection \<open>CrappyClippingPen\<close>

lemma clip_call_inside:
  assumes "cp_havePoint p" "cp_isInside p" "keepSide p c"
  shows "\<exists>p1. CrappyClippingPen_call sf p c = (p1, [c]) \<and> cp_havePoint p1 \<and> cp_isInside p1 \<and>
     cp_nx p1 = cp_nx p \<and> cp_ny p1 = cp_ny p \<and> cp_minprod p1 = cp_minprod p"
  using assms
  by (cases c) (auto simp: keepSide_def CrappyClippingPen_moveTo_def CrappyClippingPen_arcTo_def Let_def)

lemma clip_calls_inside:
  assumes "cp_havePoint p" "cp_isInside p" "\<forall>c\<in>set cs. keepSide p c"
  shows "snd (CrappyClippingPen_calls sf p cs) = cs"
  using assms
proof (induction cs arbitrary: p)
  case Nil
  then show ?case by simp
next
  case (Cons c cs)
  from Cons.prems obtain p1 where
    c: "CrappyClippingPen_call sf p c = (p1, [c])" and
    p1: "cp_havePoint p1" "cp_isInside p1" and
    eq: "cp_nx p1 = cp_nx p" "cp_ny p1 = cp_ny p" "cp_minprod p1 = cp_minprod p"
    using clip_call_inside [of p c sf] by auto
  have "\<forall>c\<in>set cs. keepSide p1 c"
    using Cons.prems(3) eq by (simp add: keepSide_def)
  then have "snd (CrappyClippingPen_calls sf p1 cs) = cs"
    using Cons.IH p1 by blast
  then show ?case
    using c by (simp add: split_beta)
qed

lemma clip_call_outside:
  assumes "\<not> cp_isInside p" "\<not> keepSide p c"
  shows "\<exists>p1. CrappyClippingPen_call sf p c = (p1, []) \<and> \<not> cp_isInside p1 \<and>
     cp_nx p1 = cp_nx p \<and> cp_ny p1 = cp_ny p \<and> cp_minprod p1 = cp_minprod p"
  using assms
  by (cases c) (auto simp: keepSide_def CrappyClippingPen_moveTo_def CrappyClippingPen_arcTo_def Let_def)

lemma clip_calls_outside:
  assumes "\<not> cp_isInside p" "\<forall>c\<in>set cs. \<not> keepSide p c"
  shows "snd (CrappyClippingPen_calls sf p cs) = []"
  using assms
proof (induction cs arbitrary: p)
  case Nil
  then show ?case by simp
next
  case (Cons c cs)
  from Cons.prems obtain p1 where
    c: "CrappyClippingPen_call sf p c = (p1, [])" and
    p1: "\<not> cp_isInside p1" and
    eq: "cp_nx p1 = cp_nx p" "cp_ny p1 = cp_ny p" "cp_minprod p1 = cp_minprod p"
    using clip_call_outside [of p c sf] by auto
  have "\<forall>c\<in>set cs. \<not> keepSide p1 c"
    using Cons.prems(2) eq by (simp add: keepSide_def)
  then have "snd (CrappyClippingPen_calls sf p1 cs) = []"
    using Cons.IH p1 by blast
  then show ?case
    using c by (simp add: split_beta)
qed

lemma keepSide_new:
  assumes "(nx, ny) \<noteq> (0, 0)"
  shows "keepSide (new_CrappyClippingPen nx ny minprod) c \<longleftrightarrow>
         fst (penop_point c) * nx + snd (penop_point c) * ny > minprod"
proof -
  define mag where "mag = sqrt (nx * nx + ny * ny)"
  have "nx * nx + ny * ny > 0"
    using assms
    by (metis not_sum_squares_lt_zero sum_squares_eq_zero_iff linorder_neqE_linordered_idom)
  then have mag: "mag > 0"
    by (simp add: mag_def)
  have "fst (penop_point c) * (nx / mag) + snd (penop_point c) * (ny / mag) =
        (fst (penop_point c) * nx + snd (penop_point c) * ny) / mag"
    by (simp add: add_divide_distrib)
  then show ?thesis
    using mag
    by (simp add: keepSide_def new_CrappyClippingPen_def Let_def mag_def [symmetric]
        divide_less_cancel)
qed

text \<open>
  C6. Let the clipping line have a normal \<open>(nx, ny)\<close> other than the null vector. A
  path (first operation a \<open>moveTo\<close>) all of whose points satisfy
  \<open>x\<cdot>nx + y\<cdot>ny > minprod\<close> reaches the target of the clipping pen unchanged,
  call for call. A sequence of calls none of whose points satisfies it (the discard side
  and the line itself) makes no call on the target. Neither depends on the float search.
\<close>

theorem clipPath_inside_outside:
  assumes "(nx, ny) \<noteq> (0, 0)"
  shows "(startsWithMove path \<and>
          (\<forall>c\<in>set path. fst (penop_point c) * nx + snd (penop_point c) * ny > minprod)
          \<longrightarrow> clipPath sf nx ny minprod path = path) \<and>
         ((\<forall>c\<in>set path. fst (penop_point c) * nx + snd (penop_point c) * ny \<le> minprod)
          \<longrightarrow> clipPath sf nx ny minprod path = [])"
proof (intro conjI impI)
  let ?p = "new_CrappyClippingPen nx ny minprod"
  assume a: "startsWithMove path \<and>
          (\<forall>c\<in>set path. fst (penop_point c) * nx + snd (penop_point c) * ny > minprod)"
  then have k: "\<forall>c\<in>set path. keepSide ?p c"
    using keepSide_new [OF assms] by simp
  show "clipPath sf nx ny minprod path = path"
  proof (cases path)
    case Nil
    then show ?thesis by (simp add: clipPath_def)
  next
    case (Cons c cs)
    with a obtain x y where c: "c = MoveTo x y"
      by (cases c) auto
    define p1 where "p1 = fst (CrappyClippingPen_moveTo x y ?p)"
    have kc: "keepSide ?p (MoveTo x y)"
      using k Cons c by simp
    then have m: "CrappyClippingPen_moveTo x y ?p = (p1, [MoveTo x y])"
      by (simp add: p1_def CrappyClippingPen_moveTo_def keepSide_def Let_def)
    have p1: "cp_havePoint p1" "cp_isInside p1" "cp_nx p1 = cp_nx ?p" "cp_ny p1 = cp_ny ?p"
      "cp_minprod p1 = cp_minprod ?p"
      using kc by (simp_all add: p1_def CrappyClippingPen_moveTo_def keepSide_def Let_def)
    have "\<forall>c\<in>set cs. keepSide p1 c"
      using k Cons p1 by (simp add: keepSide_def)
    then have "snd (CrappyClippingPen_calls sf p1 cs) = cs"
      using clip_calls_inside p1 by blast
    then show ?thesis
      using m by (simp add: clipPath_def Cons c split_beta)
  qed
next
  let ?p = "new_CrappyClippingPen nx ny minprod"
  assume "\<forall>c\<in>set path. fst (penop_point c) * nx + snd (penop_point c) * ny \<le> minprod"
  then have "\<forall>c\<in>set path. \<not> keepSide ?p c"
    using keepSide_new [OF assms] by (simp add: not_less)
  moreover have "\<not> cp_isInside ?p"
    by (simp add: new_CrappyClippingPen_def Let_def)
  ultimately show "clipPath sf nx ny minprod path = []"
    unfolding clipPath_def by (rule clip_calls_outside [rotated])
qed

theorem clipPath_inside_outside_witness:
  "((0::real), (1::real)) \<noteq> (0, 0) \<and>
   startsWithMove [MoveTo 0 1, ArcTo 1 2 (1 / 2), ArcTo 2 1 (- 1)] \<and>
   (0::real) * 0 + 1 * 1 > 0 \<and> (1::real) * 0 + 2 * 1 > 0 \<and> (2::real) * 0 + 1 * 1 > 0 \<and>
   clipPath (\<lambda>lo hi f. (lo, hi)) 0 1 0 [MoveTo 0 1, ArcTo 1 2 (1 / 2), ArcTo 2 1 (- 1)] =
     [MoveTo 0 1, ArcTo 1 2 (1 / 2), ArcTo 2 1 (- 1)] \<and>
   (0::real) * 0 + (- 1) * 1 \<le> 0 \<and> (1::real) * 0 + (- 2) * 1 \<le> 0 \<and>
   clipPath (\<lambda>lo hi f. (lo, hi)) 0 1 0 [MoveTo 0 (- 1), ArcTo 1 (- 2) (1 / 2)] = []"
  using clipPath_inside_outside
      [of 0 1 "[MoveTo 0 1, ArcTo 1 2 (1 / 2), ArcTo 2 1 (- 1)]" 0 "\<lambda>lo hi f. (lo, hi)"]
    clipPath_inside_outside
      [of 0 1 "[MoveTo 0 (- 1), ArcTo 1 (- 2) (1 / 2)]" 0 "\<lambda>lo hi f. (lo, hi)"]
  by simp

text \<open>
  C4. The claim is that a crossing segment with a significant turn is clipped by bisection
  along the arc and only straight segments by linear interpolation. The pen tests
  \<open>turn < 1e-6\<close> and not its magnitude, so a right turn is clipped as a straight line
  whatever its size: the arc from \<open>(1,0)\<close> to \<open>(-1,0)\<close> with turn \<open>-1\<close>, leaving the
  half plane \<open>x \<ge> 0\<close>, is cut at the chord's point \<open>(0,0)\<close> and forwarded as a segment of
  turn 0, and the float search is never consulted.
\<close>

theorem clipPath_right_turn_straight:
  "clipPath sf 1 0 0 [MoveTo 1 0, ArcTo (- 1) 0 (- 1)] = [MoveTo 1 0, ArcTo 0 0 0]"
  by (simp add: clipPath_def new_CrappyClippingPen_def CrappyClippingPen_moveTo_def
      CrappyClippingPen_arcTo_def Let_def)

subsection \<open>XForm\<close>

lemma floor_normalise: "0 \<le> r - of_int \<lfloor>r / 360\<rfloor> * 360 \<and> r - of_int \<lfloor>r / 360\<rfloor> * 360 < (360::real)"
proof -
  have "of_int \<lfloor>r / 360\<rfloor> \<le> r / 360" "r / 360 < of_int \<lfloor>r / 360\<rfloor> + 1"
    by linarith+
  then show ?thesis
    by (simp add: field_simps)
qed

lemma XForm_rotate_sel:
  "xf_prevTransform (XForm_rotate d X) = xf_prevTransform X"
  "xf_scaleFactor (XForm_rotate d X) = xf_scaleFactor X"
  "xf_flipYinFac (XForm_rotate d X) = xf_flipYinFac X"
  "xf_tx (XForm_rotate d X) = xf_tx X"
  "xf_ty (XForm_rotate d X) = xf_ty X"
  by (cases X; simp add: Let_def)+

lemma XForm_rotate_range:
  "0 \<le> xf_rotDegrees (XForm_rotate d X) \<and> xf_rotDegrees (XForm_rotate d X) < 360"
  using floor_normalise [of "xf_rotDegrees X + d * xf_flipYinFac X"]
  by (cases X) (simp add: Let_def)

lemma XForm_inv_rotate: "XForm_inv X \<Longrightarrow> XForm_inv (XForm_rotate d X)"
  using XForm_rotate_range [of d X] by (simp add: XForm_inv_def XForm_rotate_sel)

lemma XForm_inv_translate: "XForm_inv X \<Longrightarrow> XForm_inv (XForm_translate x y X)"
  by (simp add: XForm_inv_def XForm_translate_def Let_def split_beta)

lemma XForm_inv_scale: "XForm_inv X \<Longrightarrow> XForm_inv (XForm_scale fac flipY X)"
  using XForm_rotate_range [of 180 X]
  by (auto simp: XForm_inv_def XForm_scale_def Let_def XForm_rotate_sel mult_le_0_iff)

lemma XForm_inv_processInput: "XForm_inv X \<Longrightarrow> XForm_inv (XForm_processInput pre X)"
  by (auto simp: XForm_inv_def XForm_processInput.simps [of pre X] Let_def
      split: option.splits)

lemma XForm_inv_call: "XForm_inv X \<Longrightarrow> XForm_inv (XForm_call X c)"
  by (cases c)
    (simp_all add: XForm_inv_rotate XForm_inv_translate XForm_inv_scale
      XForm_inv_processInput XForm_clip_def)

lemma XForm_inv_foldl: "XForm_inv X \<Longrightarrow> XForm_inv (foldl XForm_call X calls)"
  by (induction calls arbitrary: X) (simp_all add: XForm_inv_call)

lemma XForm_scale_negative:
  "fac < 0 \<Longrightarrow> XForm_scale fac flipY X = XForm_scale (- fac) flipY (XForm_rotate 180 X)"
  by (simp add: XForm_scale_def Let_def)

text \<open>
  In exact arithmetic the builder does what it aims at: after any sequence of
  \<open>rotate\<close>, \<open>translate\<close>, \<open>scale\<close>, \<open>clip\<close> and \<open>processInput\<close> calls on a new
  transform the stored rotation is in \<open>[0, 360)\<close> and the stored scale factor is not
  negative, and \<open>scale\<close> with a negative factor is \<open>rotate(180)\<close> followed by
  \<open>scale\<close> with the factor's magnitude.
\<close>

lemma XForm_exact_normalised:
  "0 \<le> xf_rotDegrees (XForm_calls calls) \<and> xf_rotDegrees (XForm_calls calls) < 360 \<and>
   0 \<le> xf_scaleFactor (XForm_calls calls) \<and>
   (fac < 0 \<longrightarrow>
      XForm_scale fac flipY X = XForm_scale (- fac) flipY (XForm_rotate 180 X) \<and>
      xf_scaleFactor (XForm_scale fac flipY X) = xf_scaleFactor X * (- fac))"
proof -
  have "XForm_inv (new_XForm :: 'a XForm)"
    by (simp add: XForm_inv_def new_XForm_def)
  then have "XForm_inv (XForm_calls calls)"
    unfolding XForm_calls_def by (rule XForm_inv_foldl)
  moreover have "fac < 0 \<longrightarrow> xf_scaleFactor (XForm_scale fac flipY X) = xf_scaleFactor X * (- fac)"
    by (simp add: XForm_scale_def Let_def XForm_rotate_sel)
  ultimately show ?thesis
    by (simp add: XForm_inv_def XForm_scale_negative)
qed

lemma roundTiesToEven_of_int [simp]: "roundTiesToEven (of_int n) = n"
  by (simp add: roundTiesToEven_def)

lemma roundTiesToEven_bounds: "\<lfloor>z\<rfloor> \<le> roundTiesToEven z \<and> roundTiesToEven z \<le> \<lfloor>z\<rfloor> + 1"
  by (simp add: roundTiesToEven_def Let_def)

lemma fl64_eval:
  assumes "x \<noteq> 0" "2 powr of_int k \<le> \<bar>x\<bar>" "\<bar>x\<bar> < 2 powr of_int (k + 1)"
  shows "fl64 x = of_int (roundTiesToEven (x / 2 powr of_int (k - 52))) * 2 powr of_int (k - 52)"
proof -
  have "\<lfloor>log 2 \<bar>x\<bar>\<rfloor> = k"
    using assms by (subst floor_log_eq_powr_iff) simp_all
  then show ?thesis
    using assms(1) by (simp add: fl64_def Let_def)
qed

lemma two_powr_neg: "(2::real) powr of_int (- int n) = 1 / 2 ^ n"
  by (simp add: powr_minus_divide powr_realpow)

lemma two_powr_pos: "(2::real) powr of_int (int n) = 2 ^ n"
  by (simp add: powr_realpow)

text \<open>The doubles that the failing run meets.\<close>

lemma fl64_tiny: "fl64 (- (1 / 2 ^ 70)) = - (1 / 2 ^ 70)"
proof -
  have "fl64 (- (1 / 2 ^ 70)) =
        of_int (roundTiesToEven (- (1 / 2 ^ 70) / 2 powr of_int (- int 70 - 52))) *
          2 powr of_int (- int 70 - 52)"
  proof (rule fl64_eval)
    show "- (1 / 2 ^ 70) \<noteq> (0::real)" by simp
    show "2 powr of_int (- int 70) \<le> \<bar>- (1 / 2 ^ 70) :: real\<bar>"
      unfolding two_powr_neg by simp
    have "- int 70 + 1 = - int 69" by simp
    then show "\<bar>- (1 / 2 ^ 70) :: real\<bar> < 2 powr of_int (- int 70 + 1)"
      unfolding two_powr_neg by (simp only: two_powr_neg) simp
  qed
  moreover have e: "- int 70 - 52 = - int 122" by simp
  moreover have "- (1 / 2 ^ 70) / (1 / 2 ^ 122) = (of_int (- (2 ^ 52)) :: real)"
    by simp
  ultimately show ?thesis
    unfolding e two_powr_neg by (simp only: roundTiesToEven_of_int) simp
qed

lemma fl64_minus_360: "fl64 (- 360) = - 360"
proof -
  have "fl64 (- 360) =
        of_int (roundTiesToEven (- 360 / 2 powr of_int (int 8 - 52))) * 2 powr of_int (int 8 - 52)"
  proof (rule fl64_eval)
    show "- 360 \<noteq> (0::real)" by simp
    show "2 powr of_int (int 8) \<le> \<bar>- 360 :: real\<bar>"
      unfolding two_powr_pos by simp
    have "int 8 + 1 = int 9" by simp
    then show "\<bar>- 360 :: real\<bar> < 2 powr of_int (int 8 + 1)"
      by (simp only: two_powr_pos) simp
  qed
  moreover have e: "int 8 - 52 = - int 44" by simp
  moreover have "- 360 / (1 / 2 ^ 44) = (of_int (- (360 * 2 ^ 44)) :: real)"
    by simp
  ultimately show ?thesis
    unfolding e two_powr_neg by (simp only: roundTiesToEven_of_int) simp
qed

lemma fl64_below_360: "fl64 (360 - 1 / 2 ^ 70) = 360"
proof -
  let ?x = "360 - 1 / 2 ^ 70 :: real"
  have "fl64 ?x =
        of_int (roundTiesToEven (?x / 2 powr of_int (int 8 - 52))) * 2 powr of_int (int 8 - 52)"
  proof (rule fl64_eval)
    show "?x \<noteq> 0" by simp
    show "2 powr of_int (int 8) \<le> \<bar>?x\<bar>"
      unfolding two_powr_pos by simp
    have "int 8 + 1 = int 9" by simp
    then show "\<bar>?x\<bar> < 2 powr of_int (int 8 + 1)"
      by (simp only: two_powr_pos) simp
  qed
  moreover have e: "int 8 - 52 = - int 44" by simp
  moreover have z: "?x / (1 / 2 ^ 44) = of_int (360 * 2 ^ 44 - 1) + (1 - 1 / 2 ^ 26)"
    by simp
  moreover have "roundTiesToEven (of_int (360 * 2 ^ 44 - 1) + (1 - 1 / 2 ^ 26)) = 360 * 2 ^ 44"
  proof -
    have "\<lfloor>of_int (360 * 2 ^ 44 - 1) + (1 - 1 / 2 ^ 26 :: real)\<rfloor> = 360 * 2 ^ 44 - 1"
      by (subst floor_add_int [symmetric] | simp)+
    then show ?thesis
      unfolding roundTiesToEven_def Let_def by simp
  qed
  ultimately show ?thesis
    unfolding e two_powr_neg by (simp only:) simp
qed

lemma floor_fl64_quotient: "\<lfloor>fl64 (- (1 / 2 ^ 70) / 360)\<rfloor> = - 1"
proof -
  let ?x = "- (1 / 2 ^ 70) / 360 :: real"
  let ?z = "?x / (1 / 2 ^ 131)"
  let ?n = "roundTiesToEven ?z"
  have "fl64 ?x =
        of_int (roundTiesToEven (?x / 2 powr of_int (- int 79 - 52))) *
          2 powr of_int (- int 79 - 52)"
  proof (rule fl64_eval)
    show "?x \<noteq> 0" by simp
    show "2 powr of_int (- int 79) \<le> \<bar>?x\<bar>"
      unfolding two_powr_neg by simp
    have "- int 79 + 1 = - int 78" by simp
    then show "\<bar>?x\<bar> < 2 powr of_int (- int 79 + 1)"
      by (simp only: two_powr_neg) simp
  qed
  moreover have e: "- int 79 - 52 = - int 131" by simp
  ultimately have q: "fl64 ?x = of_int ?n * (1 / 2 ^ 131)"
    unfolding e two_powr_neg by simp
  have z: "- (2 ^ 53) + 1 < ?z" "?z + 1 < 0"
    by simp_all
  have "of_int \<lfloor>?z\<rfloor> \<le> ?z" "?z < of_int \<lfloor>?z\<rfloor> + 1"
    by linarith+
  moreover have "\<lfloor>?z\<rfloor> \<le> ?n" "?n \<le> \<lfloor>?z\<rfloor> + 1"
    using roundTiesToEven_bounds [of ?z] by simp_all
  ultimately have "- (2 ^ 53) < (of_int ?n :: real)" "(of_int ?n :: real) < 0"
    using z by linarith+
  then have "- 1 < of_int ?n * (1 / 2 ^ 131 :: real)" "of_int ?n * (1 / 2 ^ 131 :: real) < 0"
    by (simp_all add: field_simps)
  then have "\<lfloor>of_int ?n * (1 / 2 ^ 131 :: real)\<rfloor> = - 1"
    by linarith
  then show ?thesis
    unfolding q .
qed

text \<open>
  C8. The claim is that after any builder calls with finite arguments the stored rotation
  is in \<open>[0, 360)\<close>. In double arithmetic it is not: \<open>rotate(-2^(-70))\<close> on a new transform
  stores exactly 360. The sum is \<open>-2^(-70)\<close>, its quotient by 360 is a double strictly
  between \<open>-1\<close> and 0, \<open>Math.floor\<close> of it is \<open>-1\<close>, and \<open>-2^(-70) + 360\<close> rounds to
  360. The transform so stored is not the identity for \<open>processInput\<close>, which tests
  \<open>rotDegrees == 0\<close>.
\<close>

theorem XForm_rotate_double_stores_360:
  "xf_rotDegrees (XForm_rotate_fl64 (- (1 / 2 ^ 70)) (new_XForm :: unit XForm)) = 360 \<and>
   \<not> xf_rotDegrees (XForm_rotate_fl64 (- (1 / 2 ^ 70)) (new_XForm :: unit XForm)) < 360 \<and>
   \<not> isIdentity (XForm_rotate_fl64 (- (1 / 2 ^ 70)) (new_XForm :: unit XForm))"
proof -
  define d :: real where "d = - (1 / 2 ^ 70)"
  have a: "fl64 d = d"
    unfolding d_def by (rule fl64_tiny)
  have b: "\<lfloor>fl64 (d / 360)\<rfloor> = - 1"
    unfolding d_def by (rule floor_fl64_quotient)
  have "d + 360 = 360 - 1 / 2 ^ 70"
    unfolding d_def by simp
  then have c: "fl64 (d + 360) = 360"
    by (simp only: fl64_below_360)
  have "xf_rotDegrees (XForm_rotate_fl64 d (new_XForm :: unit XForm)) = 360"
    by (simp add: new_XForm_def Let_def a b c fl64_minus_360)
  then show ?thesis
    unfolding d_def by (simp add: isIdentity_def)
qed

subsection \<open>RecordingPen\<close>

lemma last_take_nth: "0 < k \<Longrightarrow> k \<le> length xs \<Longrightarrow> last (take k xs) = xs ! (k - 1)"
proof -
  assume k: "0 < k" "k \<le> length xs"
  then have "take k xs \<noteq> []" by auto
  then have "last (take k xs) = take k xs ! (length (take k xs) - 1)"
    by (rule last_conv_nth)
  then show ?thesis using k by simp
qed

lemma RecordingPen_moveTo_push:
  assumes "\<not> (rp_turns r \<noteq> [] \<and> last (rp_turns r) = None)"
  shows "RecordingPen_moveTo x y r =
           \<lparr>rp_xs = rp_xs r @ [x], rp_ys = rp_ys r @ [y], rp_turns = rp_turns r @ [None]\<rparr>"
  unfolding RecordingPen_moveTo_def Let_def by (simp only: if_not_P [OF assms])

lemma RecordingPen_moveTo_pop:
  assumes "rp_turns r \<noteq> []" "last (rp_turns r) = None"
  shows "RecordingPen_moveTo x y r =
           \<lparr>rp_xs = butlast (rp_xs r) @ [x], rp_ys = butlast (rp_ys r) @ [y],
            rp_turns = butlast (rp_turns r) @ [None]\<rparr>"
  unfolding RecordingPen_moveTo_def Let_def using assms by simp

lemma RecordingPen_arcTo_push:
  assumes "rp_turns r \<noteq> []"
    and "\<not> sqdist (r\<lparr>rp_xs := rp_xs r @ [x], rp_ys := rp_ys r @ [y]\<rparr>)
            (length (rp_turns r) - 1) (length (rp_turns r)) < 1 / 10 ^ 14"
    and "length (rp_xs r) = length (rp_turns r)" "length (rp_ys r) = length (rp_turns r)"
  shows "RecordingPen_arcTo x y turn r =
           Inr \<lparr>rp_xs = rp_xs r @ [x], rp_ys = rp_ys r @ [y],
                rp_turns = rp_turns r @
                  [Some (if sqdist (r\<lparr>rp_xs := rp_xs r @ [x], rp_ys := rp_ys r @ [y]\<rparr>)
                            (length (rp_turns r) - 1) (length (rp_turns r)) < 1 / 10 ^ 8
                         then 0 else turn)]\<rparr>"
proof -
  have n: "length (rp_turns r) - 1 < length (rp_turns r)"
    using assms(1) by (cases "rp_turns r") simp_all
  have d: "sqdist (r\<lparr>rp_xs := rp_xs r @ [x], rp_ys := rp_ys r @ [y]\<rparr>)
            (length (rp_turns r) - 1) (length (rp_turns r)) =
        (x - rp_xs r ! (length (rp_turns r) - 1)) * (x - rp_xs r ! (length (rp_turns r) - 1)) +
        (y - rp_ys r ! (length (rp_turns r) - 1)) * (y - rp_ys r ! (length (rp_turns r) - 1))"
    using n assms(3,4) by (simp add: sqdist_def nth_append)
  show ?thesis
    using assms(1,2) unfolding d RecordingPen_arcTo_def Let_def by simp
qed

lemma RecordingPen_inv_new: "RecordingPen_inv new_RecordingPen"
  by (simp add: RecordingPen_inv_def new_RecordingPen_def)

lemma RecordingPen_invI:
  assumes "length (rp_xs r) = length (rp_turns r)" "length (rp_ys r) = length (rp_turns r)"
    and "\<And>i. i < length (rp_turns r) \<Longrightarrow> rp_turns r ! i = None \<Longrightarrow>
           i = 0 \<or> rp_turns r ! (i - 1) \<noteq> None"
    and "\<And>i a. i < length (rp_turns r) \<Longrightarrow> rp_turns r ! i = Some a \<Longrightarrow>
           0 < i \<and> \<not> sqdist r (i - 1) i < 1 / 10 ^ 14 \<and>
            (sqdist r (i - 1) i < 1 / 10 ^ 8 \<longrightarrow> a = 0)"
  shows "RecordingPen_inv r"
  unfolding RecordingPen_inv_def using assms by (auto split: option.splits)

lemma RecordingPen_inv_lens:
  "RecordingPen_inv r \<Longrightarrow> length (rp_xs r) = length (rp_turns r)"
  "RecordingPen_inv r \<Longrightarrow> length (rp_ys r) = length (rp_turns r)"
  by (simp_all add: RecordingPen_inv_def)

lemma RecordingPen_inv_move:
  "RecordingPen_inv r \<Longrightarrow> i < length (rp_turns r) \<Longrightarrow> rp_turns r ! i = None \<Longrightarrow>
     i = 0 \<or> rp_turns r ! (i - 1) \<noteq> None"
  unfolding RecordingPen_inv_def by (auto split: option.splits)

lemma RecordingPen_inv_arc:
  "RecordingPen_inv r \<Longrightarrow> i < length (rp_turns r) \<Longrightarrow> rp_turns r ! i = Some a \<Longrightarrow>
     0 < i \<and> \<not> sqdist r (i - 1) i < 1 / 10 ^ 14 \<and> (sqdist r (i - 1) i < 1 / 10 ^ 8 \<longrightarrow> a = 0)"
  unfolding RecordingPen_inv_def by (auto split: option.splits)

lemma sqdist_take:
  "i < k \<Longrightarrow> j < k \<Longrightarrow> sqdist (RecordingPen_take k r) i j = sqdist r i j"
  by (simp add: sqdist_def RecordingPen_take_def)

lemma RecordingPen_inv_take:
  assumes "RecordingPen_inv r"
  shows "RecordingPen_inv (RecordingPen_take k r)"
proof (rule RecordingPen_invI)
  show "length (rp_xs (RecordingPen_take k r)) = length (rp_turns (RecordingPen_take k r))"
    "length (rp_ys (RecordingPen_take k r)) = length (rp_turns (RecordingPen_take k r))"
    using RecordingPen_inv_lens [OF assms] by (simp_all add: RecordingPen_take_def)
next
  fix i
  assume "i < length (rp_turns (RecordingPen_take k r))" "rp_turns (RecordingPen_take k r) ! i = None"
  then have "i < length (rp_turns r)" "i < k" "rp_turns r ! i = None"
    by (simp_all add: RecordingPen_take_def)
  then show "i = 0 \<or> rp_turns (RecordingPen_take k r) ! (i - 1) \<noteq> None"
    using RecordingPen_inv_move [OF assms, of i] by (auto simp: RecordingPen_take_def)
next
  fix i a
  assume "i < length (rp_turns (RecordingPen_take k r))" "rp_turns (RecordingPen_take k r) ! i = Some a"
  then have i: "i < length (rp_turns r)" "i < k" "rp_turns r ! i = Some a"
    by (simp_all add: RecordingPen_take_def)
  then show "0 < i \<and> \<not> sqdist (RecordingPen_take k r) (i - 1) i < 1 / 10 ^ 14 \<and>
            (sqdist (RecordingPen_take k r) (i - 1) i < 1 / 10 ^ 8 \<longrightarrow> a = 0)"
    using RecordingPen_inv_arc [OF assms i(1,3)] sqdist_take [of "i - 1" k i r] by auto
qed

text \<open>
  Replaying entry \<open>k\<close> of a recorder that satisfies the invariant onto its first \<open>k\<close>
  entries gives its first \<open>k + 1\<close> entries.
\<close>

lemma RecordingPen_call_entry:
  assumes inv: "RecordingPen_inv r" and k: "k < length (rp_turns r)"
  shows "RecordingPen_call (RecordingPen_take k r)
           (case rp_turns r ! k of
              None \<Rightarrow> MoveTo (rp_xs r ! k) (rp_ys r ! k)
            | Some a \<Rightarrow> ArcTo (rp_xs r ! k) (rp_ys r ! k) a) =
         Inr (RecordingPen_take (Suc k) r)"
proof (cases "rp_turns r ! k")
  case None
  have lens: "k < length (rp_xs r)" "k < length (rp_ys r)"
    using RecordingPen_inv_lens [OF inv] k by simp_all
  have nopop: "\<not> (take k (rp_turns r) \<noteq> [] \<and> last (take k (rp_turns r)) = None)"
  proof (cases "k = 0")
    case True
    then show ?thesis by simp
  next
    case False
    then have "last (take k (rp_turns r)) = rp_turns r ! (k - 1)"
      using k by (simp add: last_take_nth)
    then show ?thesis
      using RecordingPen_inv_move [OF inv k None] False by simp
  qed
  have np: "\<not> (rp_turns (RecordingPen_take k r) \<noteq> [] \<and> last (rp_turns (RecordingPen_take k r)) = None)"
    using nopop by (simp add: RecordingPen_take_def)
  show ?thesis
    using None lens k
    by (simp add: RecordingPen_moveTo_push [OF np])
      (simp add: RecordingPen_take_def take_Suc_conv_app_nth)
next
  case (Some a)
  have lens: "k < length (rp_xs r)" "k < length (rp_ys r)"
    using RecordingPen_inv_lens [OF inv] k by simp_all
  note arc = RecordingPen_inv_arc [OF inv k Some]
  then have k0: "0 < k" by simp
  let ?t = "RecordingPen_take k r"
  have ne: "rp_turns ?t \<noteq> []"
    using k0 k by (auto simp: RecordingPen_take_def)
  have len: "length (rp_turns ?t) = k" "length (rp_xs ?t) = k" "length (rp_ys ?t) = k"
    using k lens by (simp_all add: RecordingPen_take_def)
  have d: "sqdist (?t\<lparr>rp_xs := rp_xs ?t @ [rp_xs r ! k], rp_ys := rp_ys ?t @ [rp_ys r ! k]\<rparr>)
             (k - 1) k = sqdist r (k - 1) k"
    using k0 lens by (simp add: sqdist_def nth_append RecordingPen_take_def)
  have "RecordingPen_arcTo (rp_xs r ! k) (rp_ys r ! k) a ?t =
        Inr \<lparr>rp_xs = rp_xs ?t @ [rp_xs r ! k], rp_ys = rp_ys ?t @ [rp_ys r ! k],
             rp_turns = rp_turns ?t @ [Some (if sqdist r (k - 1) k < 1 / 10 ^ 8 then 0 else a)]\<rparr>"
  proof -
    have nd: "\<not> sqdist (?t\<lparr>rp_xs := rp_xs ?t @ [rp_xs r ! k], rp_ys := rp_ys ?t @ [rp_ys r ! k]\<rparr>)
            (length (rp_turns ?t) - 1) (length (rp_turns ?t)) < 1 / 10 ^ 14"
      unfolding len d using arc by simp
    have ll: "length (rp_xs ?t) = length (rp_turns ?t)" "length (rp_ys ?t) = length (rp_turns ?t)"
      using len by simp_all
    show ?thesis
      using RecordingPen_arcTo_push [OF ne nd ll, where turn = a]
      unfolding len d .
  qed
  also have "\<dots> = Inr (RecordingPen_take (Suc k) r)"
    using arc lens k Some by (auto simp: RecordingPen_take_def take_Suc_conv_app_nth)
  finally show ?thesis
    using Some by simp
qed

lemma RecordingPen_take_all: "RecordingPen_inv r \<Longrightarrow> RecordingPen_take (length (rp_turns r)) r = r"
  using RecordingPen_inv_lens [of r] by (simp add: RecordingPen_take_def)

lemma RecordingPen_take_0: "RecordingPen_take 0 r = new_RecordingPen"
  by (simp add: RecordingPen_take_def new_RecordingPen_def)

lemma RecordingPen_path_True:
  "RecordingPen_path r True =
     map (\<lambda>i. case rp_turns r ! i of
                 None \<Rightarrow> MoveTo (rp_xs r ! i) (rp_ys r ! i)
               | Some a \<Rightarrow> ArcTo (rp_xs r ! i) (rp_ys r ! i) a)
       [0 ..< length (rp_turns r)]"
  by (simp add: RecordingPen_path_def Let_def)

lemma RecordingPen_replay_from:
  assumes inv: "RecordingPen_inv r"
  shows "k \<le> length (rp_turns r) \<Longrightarrow>
     RecordingPen_calls (RecordingPen_take k r)
       (map (\<lambda>i. case rp_turns r ! i of
                   None \<Rightarrow> MoveTo (rp_xs r ! i) (rp_ys r ! i)
                 | Some a \<Rightarrow> ArcTo (rp_xs r ! i) (rp_ys r ! i) a)
         [k ..< length (rp_turns r)]) = Inr r"
proof (induction "length (rp_turns r) - k" arbitrary: k)
  case 0
  then have "k = length (rp_turns r)" by simp
  then show ?case
    using RecordingPen_take_all [OF inv] by simp
next
  case (Suc d)
  then have k: "k < length (rp_turns r)" by simp
  have "d = length (rp_turns r) - Suc k" "Suc k \<le> length (rp_turns r)"
    using Suc.hyps(2) k by simp_all
  from Suc.hyps(1) [OF this] show ?case
    using RecordingPen_call_entry [OF inv k] k by (simp add: upt_conv_Cons)
qed

lemma RecordingPen_replay_path:
  assumes "RecordingPen_inv r"
  shows "RecordingPen_calls new_RecordingPen (RecordingPen_path r True) = Inr r"
  using RecordingPen_replay_from [OF assms, of 0]
  by (simp add: RecordingPen_path_True RecordingPen_take_0)

lemma RecordingPen_inv_push_move:
  assumes inv: "RecordingPen_inv r"
    and np: "\<not> (rp_turns r \<noteq> [] \<and> last (rp_turns r) = None)"
  shows "RecordingPen_inv
           \<lparr>rp_xs = rp_xs r @ [x], rp_ys = rp_ys r @ [y], rp_turns = rp_turns r @ [None]\<rparr>"
    (is "RecordingPen_inv ?r")
proof (rule RecordingPen_invI)
  note lens = RecordingPen_inv_lens [OF inv]
  show "length (rp_xs ?r) = length (rp_turns ?r)" "length (rp_ys ?r) = length (rp_turns ?r)"
    using lens by simp_all
  fix i
  assume i: "i < length (rp_turns ?r)"
  {
    assume "rp_turns ?r ! i = None"
    show "i = 0 \<or> rp_turns ?r ! (i - 1) \<noteq> None"
    proof (cases "i < length (rp_turns r)")
      case True
      then show ?thesis
        using RecordingPen_inv_move [OF inv True] \<open>rp_turns ?r ! i = None\<close>
        by (auto simp: nth_append)
    next
      case False
      then have e: "i = length (rp_turns r)" using i by simp
      show ?thesis
      proof (cases "rp_turns r = []")
        case True
        then show ?thesis using e by simp
      next
        case False
        then have "last (rp_turns r) = rp_turns r ! (i - 1)"
          using e by (simp add: last_conv_nth)
        then show ?thesis
          using np False e by (simp add: nth_append)
      qed
    qed
  }
  {
    fix a
    assume s: "rp_turns ?r ! i = Some a"
    then have il: "i < length (rp_turns r)"
      using i by (cases "i < length (rp_turns r)") (auto simp: nth_append)
    then have t: "rp_turns r ! i = Some a"
      using s by (simp add: nth_append)
    have "i - 1 < length (rp_turns r)"
      using il by simp
    then have "sqdist ?r (i - 1) i = sqdist r (i - 1) i"
      using il lens by (simp add: sqdist_def nth_append)
    then show "0 < i \<and> \<not> sqdist ?r (i - 1) i < 1 / 10 ^ 14 \<and>
            (sqdist ?r (i - 1) i < 1 / 10 ^ 8 \<longrightarrow> a = 0)"
      using RecordingPen_inv_arc [OF inv il t] by simp
  }
qed

lemma RecordingPen_inv_push_arc:
  assumes inv: "RecordingPen_inv r"
    and ne: "rp_turns r \<noteq> []"
    and far: "\<not> sqdist \<lparr>rp_xs = rp_xs r @ [x], rp_ys = rp_ys r @ [y], rp_turns = rp_turns r @ [Some a]\<rparr>
                 (length (rp_turns r) - 1) (length (rp_turns r)) < 1 / 10 ^ 14"
    and near: "sqdist \<lparr>rp_xs = rp_xs r @ [x], rp_ys = rp_ys r @ [y], rp_turns = rp_turns r @ [Some a]\<rparr>
                 (length (rp_turns r) - 1) (length (rp_turns r)) < 1 / 10 ^ 8 \<longrightarrow> a = 0"
  shows "RecordingPen_inv
           \<lparr>rp_xs = rp_xs r @ [x], rp_ys = rp_ys r @ [y], rp_turns = rp_turns r @ [Some a]\<rparr>"
    (is "RecordingPen_inv ?r")
proof (rule RecordingPen_invI)
  note lens = RecordingPen_inv_lens [OF inv]
  show "length (rp_xs ?r) = length (rp_turns ?r)" "length (rp_ys ?r) = length (rp_turns ?r)"
    using lens by simp_all
  fix i
  assume i: "i < length (rp_turns ?r)"
  {
    assume n: "rp_turns ?r ! i = None"
    then have il: "i < length (rp_turns r)"
      using i by (cases "i < length (rp_turns r)") (auto simp: nth_append)
    then show "i = 0 \<or> rp_turns ?r ! (i - 1) \<noteq> None"
      using RecordingPen_inv_move [OF inv il] n by (auto simp: nth_append)
  }
  {
    fix b
    assume s: "rp_turns ?r ! i = Some b"
    show "0 < i \<and> \<not> sqdist ?r (i - 1) i < 1 / 10 ^ 14 \<and>
            (sqdist ?r (i - 1) i < 1 / 10 ^ 8 \<longrightarrow> b = 0)"
    proof (cases "i < length (rp_turns r)")
      case True
      then have t: "rp_turns r ! i = Some b"
        using s by (simp add: nth_append)
      have "i - 1 < length (rp_turns r)"
        using True by simp
      then have "sqdist ?r (i - 1) i = sqdist r (i - 1) i"
        using True lens by (simp add: sqdist_def nth_append)
      then show ?thesis
        using RecordingPen_inv_arc [OF inv True t] by simp
    next
      case False
      then have e: "i = length (rp_turns r)" using i by simp
      then have "b = a" using s by simp
      moreover have "0 < i" using e ne by simp
      ultimately show ?thesis
        using far near e by simp
    qed
  }
qed

lemma RecordingPen_butlast_take:
  assumes "RecordingPen_inv r"
  shows "\<lparr>rp_xs = butlast (rp_xs r), rp_ys = butlast (rp_ys r), rp_turns = butlast (rp_turns r)\<rparr> =
         RecordingPen_take (length (rp_turns r) - 1) r"
  using RecordingPen_inv_lens [OF assms] by (simp add: RecordingPen_take_def butlast_conv_take)

lemma RecordingPen_inv_butlast:
  assumes inv: "RecordingPen_inv r" and ne: "rp_turns r \<noteq> []" and l: "last (rp_turns r) = None"
  shows "\<not> (rp_turns (RecordingPen_take (length (rp_turns r) - 1) r) \<noteq> [] \<and>
            last (rp_turns (RecordingPen_take (length (rp_turns r) - 1) r)) = None)"
proof
  let ?n = "length (rp_turns r)"
  assume a: "rp_turns (RecordingPen_take (?n - 1) r) \<noteq> [] \<and>
            last (rp_turns (RecordingPen_take (?n - 1) r)) = None"
  then have n: "1 < ?n"
    by (cases "rp_turns r"; cases "tl (rp_turns r)") (auto simp: RecordingPen_take_def)
  have "last (take (?n - 1) (rp_turns r)) = rp_turns r ! (?n - 1 - 1)"
    using n by (intro last_take_nth) simp_all
  then have p: "rp_turns r ! (?n - 1 - 1) = None"
    using a by (simp add: RecordingPen_take_def)
  have q: "rp_turns r ! (?n - 1) = None"
    using l ne by (simp add: last_conv_nth)
  have m: "?n - 1 < ?n" and z: "?n - 1 \<noteq> 0"
    using n by simp_all
  from RecordingPen_inv_move [OF inv m q] z p show False
    by simp
qed

lemma RecordingPen_inv_moveTo:
  assumes inv: "RecordingPen_inv r"
  shows "RecordingPen_inv (RecordingPen_moveTo x y r)"
proof (cases "rp_turns r \<noteq> [] \<and> last (rp_turns r) = None")
  case False
  then show ?thesis
    using RecordingPen_inv_push_move [OF inv False] by (simp add: RecordingPen_moveTo_push)
next
  case True
  let ?t = "RecordingPen_take (length (rp_turns r) - 1) r"
  have "RecordingPen_moveTo x y r =
        \<lparr>rp_xs = rp_xs ?t @ [x], rp_ys = rp_ys ?t @ [y], rp_turns = rp_turns ?t @ [None]\<rparr>"
    using True RecordingPen_butlast_take [OF inv]
    by (simp add: RecordingPen_moveTo_pop RecordingPen_take_def)
  then show ?thesis
    using RecordingPen_inv_push_move [OF RecordingPen_inv_take [OF inv]
        RecordingPen_inv_butlast [OF inv]] True
    by simp
qed

lemma RecordingPen_inv_arcTo:
  assumes inv: "RecordingPen_inv r" and a: "RecordingPen_arcTo x y turn r = Inr r1"
  shows "RecordingPen_inv r1"
proof -
  let ?n = "length (rp_turns r)"
  let ?d = "(x - rp_xs r ! (?n - 1)) * (x - rp_xs r ! (?n - 1)) +
            (y - rp_ys r ! (?n - 1)) * (y - rp_ys r ! (?n - 1))"
  note lens = RecordingPen_inv_lens [OF inv]
  from a have ne: "rp_turns r \<noteq> []"
    by (auto simp: RecordingPen_arcTo_def split: if_splits)
  then have n: "?n - 1 < ?n"
    by (cases "rp_turns r") simp_all
  show ?thesis
  proof (cases "?d < 1 / 10 ^ 14")
    case True
    then have "r1 = r"
      using a ne unfolding RecordingPen_arcTo_def Let_def by (simp only: if_False if_True) simp
    then show ?thesis using inv by simp
  next
    case False
    let ?a = "if ?d < 1 / 10 ^ 8 then 0 else turn"
    let ?r = "\<lparr>rp_xs = rp_xs r @ [x], rp_ys = rp_ys r @ [y], rp_turns = rp_turns r @ [Some ?a]\<rparr>"
    have r1: "r1 = ?r"
      using a ne False unfolding RecordingPen_arcTo_def Let_def
      by (simp only: if_False if_True) simp
    have d: "sqdist ?r (?n - 1) ?n = ?d"
      using n lens by (simp add: sqdist_def nth_append)
    have "RecordingPen_inv ?r"
      by (rule RecordingPen_inv_push_arc [OF inv ne]) (simp_all only: d False not_False_eq_True, simp)
    then show ?thesis using r1 by simp
  qed
qed

lemma RecordingPen_inv_calls:
  "RecordingPen_inv r \<Longrightarrow> RecordingPen_calls r cs = Inr r1 \<Longrightarrow> RecordingPen_inv r1"
proof (induction cs arbitrary: r)
  case Nil
  then show ?case by simp
next
  case (Cons c cs)
  show ?case
  proof (cases c)
    case (MoveTo x y)
    then show ?thesis
      using Cons.IH [OF RecordingPen_inv_moveTo [OF Cons.prems(1), of x y]] Cons.prems(2) by simp
  next
    case (ArcTo x y turn)
    then obtain r2 where r2: "RecordingPen_arcTo x y turn r = Inr r2"
      using Cons.prems(2) by (cases "RecordingPen_arcTo x y turn r") simp_all
    then show ?thesis
      using Cons.IH [OF RecordingPen_inv_arcTo [OF Cons.prems(1) r2]] Cons.prems(2) ArcTo by simp
  qed
qed

lemma RecordingPen_recorded_inv:
  "RecordingPen_calls new_RecordingPen cs = Inr r \<Longrightarrow> RecordingPen_inv r"
  using RecordingPen_inv_calls [OF RecordingPen_inv_new] .

lemma RecordingPen_reversed_length:
  "length (rp_turns (RecordingPen_reversed r)) = length (rp_turns r)"
  "length (rp_xs (RecordingPen_reversed r)) = length (rp_xs r)"
  "length (rp_ys (RecordingPen_reversed r)) = length (rp_ys r)"
  by (cases "rp_turns r"; simp add: RecordingPen_reversed_def)+

lemma RecordingPen_reversed_nth:
  assumes "length (rp_xs r) = length (rp_turns r)" "length (rp_ys r) = length (rp_turns r)"
    and j: "j < length (rp_turns r)"
  shows "rp_xs (RecordingPen_reversed r) ! j = rp_xs r ! (length (rp_turns r) - 1 - j)"
    and "rp_ys (RecordingPen_reversed r) ! j = rp_ys r ! (length (rp_turns r) - 1 - j)"
    and "rp_turns (RecordingPen_reversed r) ! j =
           (if j = 0 then None else map_option uminus (rp_turns r ! (length (rp_turns r) - j)))"
proof -
  let ?n = "length (rp_turns r)"
  show "rp_xs (RecordingPen_reversed r) ! j = rp_xs r ! (?n - 1 - j)"
    "rp_ys (RecordingPen_reversed r) ! j = rp_ys r ! (?n - 1 - j)"
    using assms by (simp_all add: RecordingPen_reversed_def rev_nth)
  have ne: "rp_turns r \<noteq> []"
    using j by auto
  show "rp_turns (RecordingPen_reversed r) ! j =
           (if j = 0 then None else map_option uminus (rp_turns r ! (?n - j)))"
  proof (cases j)
    case 0
    then show ?thesis using ne by (simp add: RecordingPen_reversed_def)
  next
    case (Suc k)
    then have k: "k < length (tl (rp_turns r))"
      using j by simp
    have "rev (tl (rp_turns r)) ! k = tl (rp_turns r) ! (length (tl (rp_turns r)) - Suc k)"
      using k by (simp add: rev_nth)
    also have "\<dots> = rp_turns r ! Suc (length (tl (rp_turns r)) - Suc k)"
      using k by (simp add: nth_tl)
    also have "Suc (length (tl (rp_turns r)) - Suc k) = ?n - j"
      using k Suc by simp
    finally show ?thesis
      using ne Suc k by (simp add: RecordingPen_reversed_def)
  qed
qed

lemma RecordingPen_reversedPath_True:
  "RecordingPen_reversedPath r True =
     map (\<lambda>i. case (if i \<ge> length (rp_turns r) then None else rp_turns r ! i) of
                 None \<Rightarrow> MoveTo (rp_xs r ! (i - 1)) (rp_ys r ! (i - 1))
               | Some a \<Rightarrow> ArcTo (rp_xs r ! (i - 1)) (rp_ys r ! (i - 1)) (- a))
       (rev [1 ..< length (rp_turns r) + 1])"
  by (simp add: RecordingPen_reversedPath_def Let_def cong: option.case_cong)

lemma RecordingPen_reversedPath_length:
  "length (RecordingPen_reversedPath r True) = length (rp_turns r)"
  unfolding RecordingPen_reversedPath_True by (simp del: upt_Suc)

lemma RecordingPen_path_length:
  "length (RecordingPen_path r True) = length (rp_turns r)"
  unfolding RecordingPen_path_True by simp

lemma RecordingPen_reversedPath_is_path:
  assumes lens: "length (rp_xs r) = length (rp_turns r)" "length (rp_ys r) = length (rp_turns r)"
  shows "RecordingPen_reversedPath r True = RecordingPen_path (RecordingPen_reversed r) True"
proof (rule nth_equalityI)
  let ?n = "length (rp_turns r)"
  show len: "length (RecordingPen_reversedPath r True) =
        length (RecordingPen_path (RecordingPen_reversed r) True)"
    by (simp add: RecordingPen_reversedPath_length RecordingPen_path_length
        RecordingPen_reversed_length)
  fix j
  assume "j < length (RecordingPen_reversedPath r True)"
  then have j: "j < ?n"
    by (simp add: RecordingPen_reversedPath_length)
  have "rev [1 ..< ?n + 1] ! j = [1 ..< ?n + 1] ! (length [1 ..< ?n + 1] - Suc j)"
    using j by (intro rev_nth) (simp del: upt_Suc)
  also have "\<dots> = [1 ..< ?n + 1] ! (?n - Suc j)"
    by (simp del: upt_Suc)
  also have "\<dots> = 1 + (?n - Suc j)"
    using j by (intro nth_upt) simp
  finally have idx: "rev [1 ..< ?n + 1] ! j = ?n - j"
    using j by simp
  have jl: "j < length (rev [1 ..< ?n + 1])"
    using j by (simp del: upt_Suc)
  have sub: "?n - j - 1 = ?n - 1 - j"
    by simp
  have ge: "?n - j \<ge> ?n \<longleftrightarrow> j = 0"
    using j by auto
  define t where "t = (if j = 0 then None else rp_turns r ! (?n - j))"
  define X where "X = rp_xs r ! (?n - 1 - j)"
  define Y where "Y = rp_ys r ! (?n - 1 - j)"
  have L: "RecordingPen_reversedPath r True ! j =
        (case t of None \<Rightarrow> MoveTo X Y | Some a \<Rightarrow> ArcTo X Y (- a))"
    unfolding RecordingPen_reversedPath_True nth_map [OF jl] idx sub ge t_def X_def Y_def
    by (rule refl)
  have P: "RecordingPen_path (RecordingPen_reversed r) True ! j =
        (case rp_turns (RecordingPen_reversed r) ! j of
           None \<Rightarrow> MoveTo (rp_xs (RecordingPen_reversed r) ! j) (rp_ys (RecordingPen_reversed r) ! j)
         | Some a \<Rightarrow> ArcTo (rp_xs (RecordingPen_reversed r) ! j) (rp_ys (RecordingPen_reversed r) ! j) a)"
    using j by (simp add: RecordingPen_path_True RecordingPen_reversed_length
        cong: option.case_cong)
  have xy: "rp_xs (RecordingPen_reversed r) ! j = X" "rp_ys (RecordingPen_reversed r) ! j = Y"
    unfolding X_def Y_def by (rule RecordingPen_reversed_nth [OF lens j])+
  have tt: "rp_turns (RecordingPen_reversed r) ! j = map_option uminus t"
    unfolding t_def RecordingPen_reversed_nth(3) [OF lens j] by simp
  have R: "RecordingPen_path (RecordingPen_reversed r) True ! j =
        (case map_option uminus t of None \<Rightarrow> MoveTo X Y | Some a \<Rightarrow> ArcTo X Y a)"
    unfolding P xy tt by (rule refl)
  show "RecordingPen_reversedPath r True ! j =
      RecordingPen_path (RecordingPen_reversed r) True ! j"
    unfolding L R by (cases t) simp_all
qed

lemma sqdist_reversed:
  assumes lens: "length (rp_xs r) = length (rp_turns r)" "length (rp_ys r) = length (rp_turns r)"
    and j: "0 < j" "j < length (rp_turns r)"
  shows "sqdist (RecordingPen_reversed r) (j - 1) j =
         sqdist r (length (rp_turns r) - j - 1) (length (rp_turns r) - j)"
proof -
  let ?n = "length (rp_turns r)"
  have j1: "j - 1 < ?n" using j by simp
  have e: "?n - 1 - (j - 1) = ?n - j" "?n - 1 - j = ?n - j - 1"
    using j by simp_all
  have sq: "(a - b) * (a - b) = (b - a) * (b - a)" for a b :: real
    by (simp add: algebra_simps)
  show ?thesis
    unfolding sqdist_def
      RecordingPen_reversed_nth(1,2) [OF lens j(2)]
      RecordingPen_reversed_nth(1,2) [OF lens j1] e
    using sq by simp
qed

lemma RecordingPen_inv_first:
  assumes "RecordingPen_inv r" "rp_turns r \<noteq> []"
  shows "rp_turns r ! 0 = None"
proof (cases "rp_turns r ! 0")
  case (Some a)
  then show ?thesis
    using RecordingPen_inv_arc [OF assms(1) _ Some] assms(2) by simp
qed simp

lemma RecordingPen_inv_reversed:
  assumes inv: "RecordingPen_inv r" and nt: "noTrailingMove r"
  shows "RecordingPen_inv (RecordingPen_reversed r)"
proof (rule RecordingPen_invI)
  let ?n = "length (rp_turns r)"
  let ?v = "RecordingPen_reversed r"
  note lens = RecordingPen_inv_lens [OF inv]
  show "length (rp_xs ?v) = length (rp_turns ?v)" "length (rp_ys ?v) = length (rp_turns ?v)"
    using lens by (simp_all add: RecordingPen_reversed_length)
  fix j
  assume "j < length (rp_turns ?v)"
  then have j: "j < ?n"
    by (simp add: RecordingPen_reversed_length)
  note nth = RecordingPen_reversed_nth(3) [OF lens]
  {
    assume m: "rp_turns ?v ! j = None"
    show "j = 0 \<or> rp_turns ?v ! (j - 1) \<noteq> None"
    proof (cases "j = 0 \<or> j = 1")
      case True
      then show ?thesis
      proof
        assume "j = 1"
        then have "rp_turns r ! (?n - 1) = None" "1 < ?n"
          using m nth [OF j] j by simp_all
        moreover from this have "rp_turns r \<noteq> []"
          by auto
        ultimately have "last (rp_turns r) = None" "\<not> ?n \<le> 1"
          by (simp_all add: last_conv_nth)
        then show ?thesis
          using nt by (simp add: noTrailingMove_def)
      qed simp
    next
      case False
      then have j2: "2 \<le> j" by simp
      have i: "?n - j < ?n" "?n - j \<noteq> 0" "?n - j + 1 < ?n" "?n - (j - 1) = ?n - j + 1"
        using j j2 by simp_all
      have here: "rp_turns r ! (?n - j) = None"
        using m nth [OF j] j2 by simp
      have "rp_turns r ! (?n - j + 1) \<noteq> None"
      proof
        assume "rp_turns r ! (?n - j + 1) = None"
        from RecordingPen_inv_move [OF inv i(3) this] here show False
          by simp
      qed
      moreover have "j - 1 < ?n" "j - 1 \<noteq> 0"
        using j j2 by simp_all
      ultimately show ?thesis
        using nth [of "j - 1"] i(4) by simp
    qed
  }
  {
    fix a
    assume s: "rp_turns ?v ! j = Some a"
    then have j0: "0 < j"
      using nth [OF j] by (cases "j = 0") simp_all
    then obtain b where b: "rp_turns r ! (?n - j) = Some b" "a = - b"
      using s nth [OF j] by (cases "rp_turns r ! (?n - j)") simp_all
    have i: "?n - j < ?n"
      using j j0 by simp
    have "sqdist ?v (j - 1) j = sqdist r (?n - j - 1) (?n - j)"
      using sqdist_reversed [OF lens j0 j] .
    then show "0 < j \<and> \<not> sqdist ?v (j - 1) j < 1 / 10 ^ 14 \<and>
            (sqdist ?v (j - 1) j < 1 / 10 ^ 8 \<longrightarrow> a = 0)"
      using RecordingPen_inv_arc [OF inv i b(1)] j0 b(2) by simp
  }
qed

lemma noTrailingMove_reversed:
  assumes inv: "RecordingPen_inv r"
  shows "noTrailingMove (RecordingPen_reversed r)"
proof (cases "length (rp_turns r) \<le> 1")
  case True
  then show ?thesis
    by (simp add: noTrailingMove_def RecordingPen_reversed_length)
next
  case False
  let ?n = "length (rp_turns r)"
  let ?v = "RecordingPen_reversed r"
  note lens = RecordingPen_inv_lens [OF inv]
  have n: "1 < ?n" "?n - 1 < ?n" "?n - 1 \<noteq> 0" "?n - (?n - 1) = 1"
    using False by simp_all
  have ne: "rp_turns ?v \<noteq> []"
    using n RecordingPen_reversed_length(1) [of r] by auto
  have "rp_turns r \<noteq> []"
    using n(1) by auto
  then have "rp_turns r ! 0 = None"
    by (rule RecordingPen_inv_first [OF inv])
  then have "rp_turns r ! 1 \<noteq> None"
    using RecordingPen_inv_move [OF inv n(1)] by auto
  then have "rp_turns ?v ! (?n - 1) \<noteq> None"
    using RecordingPen_reversed_nth(3) [OF lens n(2)] n(3,4) by simp
  then have "last (rp_turns ?v) \<noteq> None"
    using ne by (simp add: last_conv_nth RecordingPen_reversed_length)
  then show ?thesis
    by (simp add: noTrailingMove_def)
qed

lemma RecordingPen_reversed_reversed:
  assumes inv: "RecordingPen_inv r"
  shows "RecordingPen_reversed (RecordingPen_reversed r) = r"
proof (cases "rp_turns r")
  case Nil
  then show ?thesis
    using RecordingPen_inv_lens [OF inv] by (simp add: RecordingPen_reversed_def)
next
  case (Cons a as)
  then have "a = None"
    using RecordingPen_inv_first [OF inv] by simp
  moreover have "map_option uminus (map_option uminus t) = t" for t :: "real option"
    by (cases t) simp_all
  then have "map (map_option uminus) (map (map_option uminus) ts) = ts" for ts :: "real option list"
    by (induction ts) simp_all
  ultimately show ?thesis
    using Cons by (simp add: RecordingPen_reversed_def rev_map)
qed

lemma RecordingPen_path_zip:
  assumes lens: "length (rp_xs r) = length (rp_turns r)" "length (rp_ys r) = length (rp_turns r)"
  shows "RecordingPen_path r True =
           map (\<lambda>(x, y, t). case t of None \<Rightarrow> MoveTo x y | Some a \<Rightarrow> ArcTo x y a)
             (zip (rp_xs r) (zip (rp_ys r) (rp_turns r)))"
proof (rule nth_equalityI)
  show "length (RecordingPen_path r True) =
        length (map (\<lambda>(x, y, t). case t of None \<Rightarrow> MoveTo x y | Some a \<Rightarrow> ArcTo x y a)
             (zip (rp_xs r) (zip (rp_ys r) (rp_turns r))))"
    using lens by (simp add: RecordingPen_path_length)
  fix i
  assume "i < length (RecordingPen_path r True)"
  then have i: "i < length (rp_turns r)"
    by (simp add: RecordingPen_path_length)
  then show "RecordingPen_path r True ! i =
        map (\<lambda>(x, y, t). case t of None \<Rightarrow> MoveTo x y | Some a \<Rightarrow> ArcTo x y a)
             (zip (rp_xs r) (zip (rp_ys r) (rp_turns r))) ! i"
    using lens by (simp add: RecordingPen_path_True cong: option.case_cong)
qed

lemma RecordingPen_reversed_lens:
  assumes "length (rp_xs r) = length (rp_turns r)" "length (rp_ys r) = length (rp_turns r)"
  shows "length (rp_xs (RecordingPen_reversed r)) = length (rp_turns (RecordingPen_reversed r))"
    "length (rp_ys (RecordingPen_reversed r)) = length (rp_turns (RecordingPen_reversed r))"
  using assms by (simp_all add: RecordingPen_reversed_length)

lemma RecordingPen_reversed_trailing:
  assumes inv: "RecordingPen_inv r" and n: "2 \<le> length (rp_turns r)"
    and l: "last (rp_turns r) = None"
  shows "RecordingPen_path (RecordingPen_reversed r) True =
           MoveTo (last (rp_xs r)) (last (rp_ys r)) #
           RecordingPen_path (RecordingPen_reversed (dropTrailingMove r)) True"
proof -
  note lens = RecordingPen_inv_lens [OF inv]
  let ?d = "\<lparr>rp_xs = butlast (rp_xs r), rp_ys = butlast (rp_ys r),
            rp_turns = butlast (rp_turns r)\<rparr>"
  have d: "dropTrailingMove r = ?d"
    using n l by (simp add: dropTrailingMove_def)
  have ne: "rp_xs r \<noteq> []" "rp_ys r \<noteq> []" "rp_turns r \<noteq> []"
    using n lens by auto
  have bne: "butlast (rp_turns r) \<noteq> []"
    using n by (cases "rp_turns r"; cases "tl (rp_turns r)") auto
  have x: "rev (rp_xs r) = last (rp_xs r) # rev (butlast (rp_xs r))"
    and y: "rev (rp_ys r) = last (rp_ys r) # rev (butlast (rp_ys r))"
    using ne by (metis append_butlast_last_id rev.simps(2) rev_rev_ident rev_append append_Cons append_Nil)+
  have "tl (rp_turns r) = tl (butlast (rp_turns r)) @ [None]"
    using ne(3) bne l by (metis append_butlast_last_id tl_append2)
  then have t: "rev (tl (rp_turns r)) = None # rev (tl (butlast (rp_turns r)))"
    by simp
  have dl: "length (rp_xs ?d) = length (rp_turns ?d)" "length (rp_ys ?d) = length (rp_turns ?d)"
    using lens by simp_all
  show ?thesis
    unfolding d
      RecordingPen_path_zip [OF RecordingPen_reversed_lens [OF lens]]
      RecordingPen_path_zip [OF RecordingPen_reversed_lens [OF dl]]
    using ne(3) bne by (simp add: RecordingPen_reversed_def x y t)
qed

lemma RecordingPen_calls_two_moves:
  "RecordingPen_calls new_RecordingPen (MoveTo a b # MoveTo c d # cs) =
   RecordingPen_calls new_RecordingPen (MoveTo c d # cs)"
  by (simp add: RecordingPen_moveTo_def new_RecordingPen_def Let_def)

lemma RecordingPen_path_reversed_move:
  assumes "rp_turns r \<noteq> []"
  shows "\<exists>x y cs. RecordingPen_path (RecordingPen_reversed r) True = MoveTo x y # cs"
proof -
  have "0 < length (rp_turns (RecordingPen_reversed r))"
    using assms by (simp add: RecordingPen_reversed_length)
  then have "[0 ..< length (rp_turns (RecordingPen_reversed r))] =
             0 # [1 ..< length (rp_turns (RecordingPen_reversed r))]"
    by (simp add: upt_conv_Cons)
  moreover have "rp_turns (RecordingPen_reversed r) ! 0 = None"
    using assms by (simp add: RecordingPen_reversed_def)
  ultimately show ?thesis
    unfolding RecordingPen_path_True by simp
qed

lemma dropTrailingMove_inv:
  assumes inv: "RecordingPen_inv r"
  shows "RecordingPen_inv (dropTrailingMove r)" "noTrailingMove (dropTrailingMove r)"
proof -
  let ?n = "length (rp_turns r)"
  show "RecordingPen_inv (dropTrailingMove r)"
    using inv RecordingPen_inv_take [OF inv, of "?n - 1"] RecordingPen_butlast_take [OF inv]
    by (simp add: dropTrailingMove_def)
  show "noTrailingMove (dropTrailingMove r)"
  proof (cases "2 \<le> ?n \<and> last (rp_turns r) = None")
    case True
    then have ne: "rp_turns r \<noteq> []" by auto
    have "dropTrailingMove r = RecordingPen_take (?n - 1) r"
      using True RecordingPen_butlast_take [OF inv] by (simp add: dropTrailingMove_def)
    then show ?thesis
      using RecordingPen_inv_butlast [OF inv ne] True
      by (auto simp: noTrailingMove_def)
  next
    case False
    then show ?thesis
      by (auto simp: noTrailingMove_def dropTrailingMove_def)
  qed
qed

lemma RecordingPen_reversedPath_dropTrailingMove:
  assumes inv: "RecordingPen_inv r"
  shows "RecordingPen_calls new_RecordingPen (RecordingPen_reversedPath r True) =
         RecordingPen_calls new_RecordingPen (RecordingPen_reversedPath (dropTrailingMove r) True)"
proof (cases "2 \<le> length (rp_turns r) \<and> last (rp_turns r) = None")
  case False
  then have "dropTrailingMove r = r"
    unfolding dropTrailingMove_def by (rule if_not_P)
  then show ?thesis
    by simp
next
  case True
  note lens = RecordingPen_inv_lens [OF inv]
  note dinv = dropTrailingMove_inv(1) [OF inv]
  have "rp_turns (dropTrailingMove r) \<noteq> []"
    using True by (cases "rp_turns r"; cases "tl (rp_turns r)") (auto simp: dropTrailingMove_def)
  then obtain x y cs where
    p: "RecordingPen_path (RecordingPen_reversed (dropTrailingMove r)) True = MoveTo x y # cs"
    using RecordingPen_path_reversed_move by blast
  have "RecordingPen_reversedPath r True =
        MoveTo (last (rp_xs r)) (last (rp_ys r)) # MoveTo x y # cs"
    using RecordingPen_reversed_trailing [OF inv] True p
    by (simp add: RecordingPen_reversedPath_is_path [OF lens])
  moreover have "RecordingPen_reversedPath (dropTrailingMove r) True = MoveTo x y # cs"
    using p by (simp add: RecordingPen_reversedPath_is_path [OF RecordingPen_inv_lens [OF dinv]])
  ultimately show ?thesis
    by (simp only: RecordingPen_calls_two_moves)
qed

text \<open>
  C5. Let \<open>r\<close> be a recorder reached from a new one by any calls of \<open>moveTo\<close> and
  \<open>arcTo\<close>, none of which threw. Drawing \<open>r.path\<close> with \<open>doMove = true\<close> on a new
  recorder leaves that recorder with the arrays of \<open>r\<close>: the same points and turns.
  Drawing \<open>r.reversedPath\<close> on a new recorder \<open>r1\<close> does not throw, and
  \<open>r1.reversedPath\<close> is the sequence of calls \<open>r.path\<close> makes, less a final bare
  \<open>moveTo\<close> that follows other entries; drawn on a new recorder it gives \<open>r\<close> less
  that entry.
\<close>

theorem RecordingPen_replay_round_trip:
  assumes "RecordingPen_calls new_RecordingPen cs = Inr r"
  shows "RecordingPen_calls new_RecordingPen (RecordingPen_path r True) = Inr r \<and>
         (\<exists>r1. RecordingPen_calls new_RecordingPen (RecordingPen_reversedPath r True) = Inr r1 \<and>
               RecordingPen_reversedPath r1 True = RecordingPen_path (dropTrailingMove r) True \<and>
               RecordingPen_calls new_RecordingPen (RecordingPen_reversedPath r1 True) =
                 Inr (dropTrailingMove r))"
proof
  have inv: "RecordingPen_inv r"
    using assms by (rule RecordingPen_recorded_inv)
  show "RecordingPen_calls new_RecordingPen (RecordingPen_path r True) = Inr r"
    using inv by (rule RecordingPen_replay_path)
  let ?d = "dropTrailingMove r"
  let ?r1 = "RecordingPen_reversed ?d"
  note dinv = dropTrailingMove_inv [OF inv]
  have r1inv: "RecordingPen_inv ?r1"
    using dinv by (rule RecordingPen_inv_reversed)
  have "RecordingPen_calls new_RecordingPen (RecordingPen_reversedPath r True) =
        RecordingPen_calls new_RecordingPen (RecordingPen_path ?r1 True)"
    using RecordingPen_reversedPath_dropTrailingMove [OF inv]
    by (simp add: RecordingPen_reversedPath_is_path [OF RecordingPen_inv_lens [OF dinv(1)]])
  then have 1: "RecordingPen_calls new_RecordingPen (RecordingPen_reversedPath r True) = Inr ?r1"
    using RecordingPen_replay_path [OF r1inv] by simp
  have 2: "RecordingPen_reversedPath ?r1 True = RecordingPen_path ?d True"
    using RecordingPen_reversedPath_is_path [OF RecordingPen_inv_lens [OF r1inv]]
      RecordingPen_reversed_reversed [OF dinv(1)]
    by simp
  have 3: "RecordingPen_calls new_RecordingPen (RecordingPen_reversedPath ?r1 True) = Inr ?d"
    unfolding 2 using dinv(1) by (rule RecordingPen_replay_path)
  show "\<exists>r1. RecordingPen_calls new_RecordingPen (RecordingPen_reversedPath r True) = Inr r1 \<and>
               RecordingPen_reversedPath r1 True = RecordingPen_path (dropTrailingMove r) True \<and>
               RecordingPen_calls new_RecordingPen (RecordingPen_reversedPath r1 True) =
                 Inr (dropTrailingMove r)"
    using 1 2 3 by blast
qed

theorem RecordingPen_replay_round_trip_witness:
  "RecordingPen_calls new_RecordingPen [MoveTo 0 0, ArcTo 1 0 (1 / 2), ArcTo 1 1 0, MoveTo 5 5] =
     Inr \<lparr>rp_xs = [0, 1, 1, 5], rp_ys = [0, 0, 1, 5],
          rp_turns = [None, Some (1 / 2), Some 0, None]\<rparr> \<and>
   RecordingPen_calls new_RecordingPen
     (RecordingPen_path \<lparr>rp_xs = [0, 1, 1, 5], rp_ys = [0, 0, 1, 5],
          rp_turns = [None, Some (1 / 2), Some 0, None]\<rparr> True) =
     Inr \<lparr>rp_xs = [0, 1, 1, 5], rp_ys = [0, 0, 1, 5],
          rp_turns = [None, Some (1 / 2), Some 0, None]\<rparr> \<and>
   (\<exists>r1. RecordingPen_calls new_RecordingPen
           (RecordingPen_reversedPath \<lparr>rp_xs = [0, 1, 1, 5], rp_ys = [0, 0, 1, 5],
              rp_turns = [None, Some (1 / 2), Some 0, None]\<rparr> True) = Inr r1 \<and>
         RecordingPen_reversedPath r1 True = [MoveTo 0 0, ArcTo 1 0 (1 / 2), ArcTo 1 1 0] \<and>
         RecordingPen_calls new_RecordingPen (RecordingPen_reversedPath r1 True) =
           Inr \<lparr>rp_xs = [0, 1, 1], rp_ys = [0, 0, 1], rp_turns = [None, Some (1 / 2), Some 0]\<rparr>)"
proof -
  let ?r = "\<lparr>rp_xs = [0, 1, 1, 5], rp_ys = [0, 0, 1, 5],
          rp_turns = [None, Some (1 / 2), Some 0, None]\<rparr>"
  have e: "RecordingPen_calls new_RecordingPen
        [MoveTo 0 0, ArcTo 1 0 (1 / 2), ArcTo 1 1 0, MoveTo 5 5] = Inr ?r"
    by code_simp
  have d: "dropTrailingMove ?r =
        \<lparr>rp_xs = [0, 1, 1], rp_ys = [0, 0, 1], rp_turns = [None, Some (1 / 2), Some 0]\<rparr>"
    by code_simp
  have p: "RecordingPen_path
        \<lparr>rp_xs = [0, 1, 1], rp_ys = [0, 0, 1], rp_turns = [None, Some (1 / 2), Some 0]\<rparr> True =
        [MoveTo 0 0, ArcTo 1 0 (1 / 2), ArcTo 1 1 0]"
    by code_simp
  show ?thesis
    using e RecordingPen_replay_round_trip [OF e] unfolding d p by simp
qed

subsection \<open>createGearPair\<close>

text \<open>
  C7. With \<open>gearTeeth < 4\<close>, \<open>createGearPair\<close> throws the error "Can't have less than
  4 gear teeth" and has handed out no work: no rack was made, no tooth cut, no fillet
  pass run, whatever the cutter and the fillet passes are. No result is returned.
\<close>

theorem createGearPair_too_few_teeth:
  "gp_gearTeeth props < 4 \<Longrightarrow> createGearPair env props = ([], Inl TooFewGearTeeth)"
  by (simp add: createGearPair_def Let_def)

theorem createGearPair_too_few_teeth_witness:
  "gp_gearTeeth (props_40_12\<lparr>gp_gearTeeth := 3\<rparr>) < 4 \<and>
   createGearPair replayEnv (props_40_12\<lparr>gp_gearTeeth := 3\<rparr>) = ([], Inl TooFewGearTeeth)"
  using createGearPair_too_few_teeth [of "props_40_12\<lparr>gp_gearTeeth := 3\<rparr>" replayEnv]
  by simp

lemma createGearPair_pitch:
  assumes "snd (createGearPair env props) = Inr r"
  shows "gearPitchDiameter r =
           ((gp_gearTeeth props * 0.5) / pi) * 2.0 *
             (gp_size props /
               (if gp_sizeType props = SizeDiaPitch then 1.0
                else if gp_sizeType props = SizeCenterDist
                then (gp_gearTeeth props * 0.5) / pi +
                  (if orDefault (gp_isInternalGear props) DEFAULT_IS_INTERNAL
                   then - ((gp_pinionTeeth props * 0.5) / pi) else (gp_pinionTeeth props * 0.5) / pi)
                else 1.0 / pi))"
  using assms
  by (auto simp: createGearPair_def Let_def split: if_splits prod.splits sum.splits)

lemma RecordingPen_arcTo_returns:
  "rp_turns r \<noteq> [] \<Longrightarrow>
     \<exists>r1. RecordingPen_arcTo x y turn r = Inr r1 \<and> rp_turns r1 \<noteq> []"
  by (simp add: RecordingPen_arcTo_def Let_def)

lemma RecordingPen_calls_returns:
  "rp_turns r \<noteq> [] \<Longrightarrow> \<not> isl (RecordingPen_calls r cs)"
proof (induction cs arbitrary: r)
  case Nil
  then show ?case by simp
next
  case (Cons c cs)
  show ?case
  proof (cases c)
    case (MoveTo x y)
    have "rp_turns (RecordingPen_moveTo x y r) \<noteq> []"
      by (simp add: RecordingPen_moveTo_def Let_def)
    then show ?thesis
      using Cons.IH MoveTo by simp
  next
    case (ArcTo x y turn)
    from Cons.prems obtain r1 where r1: "RecordingPen_arcTo x y turn r = Inr r1" "rp_turns r1 \<noteq> []"
      using RecordingPen_arcTo_returns by blast
    then show ?thesis
      using Cons.IH ArcTo by simp
  qed
qed

lemma RecordingPen_calls_new_returns:
  "startsWithMove cs \<Longrightarrow> \<not> isl (RecordingPen_calls new_RecordingPen cs)"
proof (cases cs)
  case Nil
  then show ?thesis by simp
next
  case (Cons c cs')
  assume "startsWithMove cs"
  with Cons obtain x y where c: "c = MoveTo x y"
    by (cases c) auto
  have "rp_turns (RecordingPen_moveTo x y new_RecordingPen) \<noteq> []"
    by (simp add: RecordingPen_moveTo_def Let_def)
  then show ?thesis
    using RecordingPen_calls_returns Cons c by simp
qed

lemma startsWithMove_rack: "startsWithMove (map (XFormPen_call X) (makeRack p True))"
  by (simp add: makeRack_def Let_def split_beta)

lemma cutTooth_replayEnv:
  "\<not> isl (snd (cutTooth replayEnv nTeeth radius faceT filletT (makeRack p) False fillet))"
proof -
  let ?X = "XForm_translate 0 radius (XForm_rotate (- 90) (new_XForm :: unit XForm))"
  have "\<not> isl (RecordingPen_calls new_RecordingPen (map (XFormPen_call ?X) (makeRack p True)))"
    using startsWithMove_rack by (rule RecordingPen_calls_new_returns)
  then show ?thesis
    by (auto simp: cutTooth_def replayEnv_def Let_def split: sum.splits)
qed

lemma createGearPair_replayEnv_returns:
  "\<not> isl (snd (createGearPair replayEnv props_40_12))"
proof -
  have "\<not> isl (snd (cutTooth replayEnv nTeeth radius faceT filletT (makeRack p) False fillet))"
    for nTeeth radius faceT filletT p fillet
    by (rule cutTooth_replayEnv)
  then show ?thesis
    apply (simp add: createGearPair_def props_40_12_def Let_def orDefault_def
        DEFAULT_MAX_FILLET_def DEFAULT_IS_INTERNAL_def split: prod.splits sum.splits)
    apply (metis sum.disc(1) snd_conv)
    done
qed

text \<open>
  C2 (as amended). For the properties \<open>props_40_12\<close>, whenever \<open>createGearPair\<close>
  returns a result, its \<open>gearPitchDiameter\<close> is \<open>2\<cdot>(40\<cdot>0.5/\<pi>)\<cdot>(2\<pi>) = 80\<close> and its
  \<open>pinionPitchDiameter\<close> is \<open>2\<cdot>(12\<cdot>0.5/\<pi>)\<cdot>(2\<pi>) = 24\<close>: the scale is
  \<open>size / (1/\<pi>) = 2\<pi>\<close>, so the pitch diameter is module times teeth.
\<close>

theorem createGearPair_pitch_diameters:
  "snd (createGearPair env props_40_12) = Inr r \<Longrightarrow>
     gearPitchDiameter r = 2 * (40 * 0.5 / pi) * (2 * pi) \<and> gearPitchDiameter r = 80 \<and>
     pinionPitchDiameter r = 2 * (12 * 0.5 / pi) * (2 * pi) \<and> pinionPitchDiameter r = 24"
  by (auto simp: createGearPair_def props_40_12_def Let_def orDefault_def
      split: if_splits prod.splits sum.splits)

theorem createGearPair_pitch_diameters_witness:
  "\<not> isl (snd (createGearPair replayEnv props_40_12)) \<and>
   gearPitchDiameter (projr (snd (createGearPair replayEnv props_40_12))) = 80 \<and>
   pinionPitchDiameter (projr (snd (createGearPair replayEnv props_40_12))) = 24"
proof -
  have "snd (createGearPair replayEnv props_40_12) =
        Inr (projr (snd (createGearPair replayEnv props_40_12)))"
    using createGearPair_replayEnv_returns by simp
  from createGearPair_pitch_diameters [OF this] show ?thesis
    using createGearPair_replayEnv_returns by simp
qed

text \<open>
  C2 as stated fails: with the cutter of \<open>replayEnv\<close> a result is returned, and its
  pitch diameters exceed the stated values \<open>2\<cdot>40\<cdot>0.5/\<pi>\<cdot>2\<close> and \<open>2\<cdot>12\<cdot>0.5/\<pi>\<cdot>2\<close>
  by at least 40 and 12.
\<close>

lemma createGearPair_pitch_values:
  "snd (createGearPair env props_40_12) = Inr r \<Longrightarrow>
     gearPitchDiameter r = 80 \<and> pinionPitchDiameter r = 24"
  by (auto simp: createGearPair_def props_40_12_def Let_def orDefault_def
      split: if_splits prod.splits sum.splits)

theorem createGearPair_pitch_counterexample:
  "\<not> isl (snd (createGearPair replayEnv props_40_12)) \<and>
   gearPitchDiameter (projr (snd (createGearPair replayEnv props_40_12))) -
     2 * 40 * 0.5 / pi * 2 \<ge> 40 \<and>
   pinionPitchDiameter (projr (snd (createGearPair replayEnv props_40_12))) -
     2 * 12 * 0.5 / pi * 2 \<ge> 12"
proof -
  have r: "snd (createGearPair replayEnv props_40_12) =
        Inr (projr (snd (createGearPair replayEnv props_40_12)))"
    using createGearPair_replayEnv_returns by simp
  have "80 / pi \<le> 80 / 2" "24 / pi \<le> 24 / 2"
    using pi_ge_two by (intro divide_left_mono; simp)+
  then have "2 * 40 * 0.5 / pi * 2 \<le> (40::real)" "2 * 12 * 0.5 / pi * 2 \<le> (12::real)"
    by simp_all
  then show ?thesis
    using createGearPair_pitch_values [OF r] createGearPair_replayEnv_returns by simp
qed

subsection \<open>Priority queue\<close>

lemma heapOrdered_iff:
  "heapOrdered q \<longleftrightarrow> (\<forall>i. 0 < i \<and> i < length q \<longrightarrow> fst (q ! ((i - 1) div 2)) \<le> fst (q ! i))"
  by (auto simp: heapOrdered_def)

lemma par_less: "0 < i \<Longrightarrow> (i - 1) div 2 < (i::nat)"
  by arith

lemma length_pqpush_loop [simp]: "length (pqpush_loop q pos) = length q"
  by (induction q pos rule: pqpush_loop.induct)
    (subst pqpush_loop.simps, simp add: Let_def)

lemma mset_pqpush_loop: "pos < length q \<Longrightarrow> mset (pqpush_loop q pos) = mset q"
proof (induction q pos rule: pqpush_loop.induct)
  case (1 q pos)
  show ?case
  proof (cases "0 < pos \<and> \<not> fst (q ! ((pos - 1) div 2)) \<le> fst (q ! pos)")
    case True
    let ?par = "(pos - 1) div 2"
    have par: "?par < length q"
      using "1.prems" by simp
    have "mset (pqpush_loop (q[?par := q ! pos, pos := q ! ?par]) ?par) =
          mset (q[?par := q ! pos, pos := q ! ?par])"
      using "1.IH" [of ?par] True par by simp
    also have "\<dots> = mset q"
      using mset_swap [OF "1.prems" par] by simp
    finally show ?thesis
      using True by (subst pqpush_loop.simps) (simp add: Let_def)
  next
    case False
    then show ?thesis
      by (subst pqpush_loop.simps) (auto simp: Let_def)
  qed
qed

lemma heapExceptUp_swap:
  assumes h: "heapExceptUp q pos" and pos: "0 < pos" "pos < length q"
    and lt: "\<not> fst (q ! ((pos - 1) div 2)) \<le> fst (q ! pos)"
  shows "heapExceptUp (q[(pos - 1) div 2 := q ! pos, pos := q ! ((pos - 1) div 2)]) ((pos - 1) div 2)"
proof -
  let ?par = "(pos - 1) div 2"
  let ?q = "q[?par := q ! pos, pos := q ! ?par]"
  have parlt: "?par < pos"
    using pos by simp
  have nth: "?q ! i = (if i = pos then q ! ?par else if i = ?par then q ! pos else q ! i)"
    if "i < length q" for i
    using that pos parlt by (simp add: nth_list_update)
  have h1: "fst (q ! ((i - 1) div 2)) \<le> fst (q ! i)" if "0 < i" "i < length q" "i \<noteq> pos" for i
    using h that by (simp add: heapExceptUp_def)
  have h2: "fst (q ! ((pos - 1) div 2)) \<le> fst (q ! i)"
    if "0 < i" "i < length q" "(i - 1) div 2 = pos" for i
    using h that pos by (simp add: heapExceptUp_def)
  show ?thesis
    unfolding heapExceptUp_def
  proof (intro conjI allI impI)
    fix i
    assume a: "0 < i \<and> i < length ?q \<and> i \<noteq> ?par"
    then have i: "0 < i" "i < length q" "i \<noteq> ?par"
      by simp_all
    have pi: "(i - 1) div 2 < length q" "(i - 1) div 2 < i"
      using i by simp_all
    show "fst (?q ! ((i - 1) div 2)) \<le> fst (?q ! i)"
    proof (cases "i = pos")
      case True
      then show ?thesis
        using nth [of pos] nth [of ?par] pos parlt lt by simp
    next
      case False
      consider "(i - 1) div 2 = pos" | "(i - 1) div 2 = ?par" | "(i - 1) div 2 \<noteq> pos" "(i - 1) div 2 \<noteq> ?par"
        by blast
      then show ?thesis
      proof cases
        case 1
        then show ?thesis
          using nth [of i] nth [of pos] i False pos h2 [of i] by simp
      next
        case 2
        then show ?thesis
          using nth [of i] nth [of ?par] i False pos parlt h1 [of i] lt by simp
      next
        case 3
        then show ?thesis
          using nth [of i] nth [of "(i - 1) div 2"] i pi False h1 [of i] by simp
      qed
    qed
  next
    fix i
    assume a: "0 < i \<and> i < length ?q \<and> (i - 1) div 2 = ?par \<and> 0 < ?par"
    then have i: "0 < i" "i < length q" "(i - 1) div 2 = ?par" "0 < ?par"
      by simp_all
    have ppar: "(?par - 1) div 2 < ?par"
      using i(4) by (rule par_less)
    have ne: "i \<noteq> ?par" using i(1,3) par_less [of i] by simp
    have gp: "?q ! ((?par - 1) div 2) = q ! ((?par - 1) div 2)"
      using nth [of "(?par - 1) div 2"] ppar parlt pos by simp
    have le: "fst (q ! ((?par - 1) div 2)) \<le> fst (q ! ?par)"
      using h1 [of ?par] i parlt pos by simp
    show "fst (?q ! ((?par - 1) div 2)) \<le> fst (?q ! i)"
    proof (cases "i = pos")
      case True
      then show ?thesis
        using gp nth [of pos] pos le by simp
    next
      case False
      have "fst (q ! ?par) \<le> fst (q ! i)"
        using h1 [of i] i False by simp
      then show ?thesis
        using gp nth [of i] i False ne le by simp
    qed
  qed
qed

lemma heapOrdered_pqpush_loop:
  "pos < length q \<Longrightarrow> heapExceptUp q pos \<Longrightarrow> heapOrdered (pqpush_loop q pos)"
proof (induction q pos rule: pqpush_loop.induct)
  case (1 q pos)
  let ?par = "(pos - 1) div 2"
  show ?case
  proof (cases "0 < pos")
    case False
    then have "heapOrdered q"
      using "1.prems" by (auto simp: heapExceptUp_def heapOrdered_iff)
    then show ?thesis
      using False by (subst pqpush_loop.simps) simp
  next
    case True
    show ?thesis
    proof (cases "fst (q ! ?par) \<le> fst (q ! pos)")
      case le: True
      have "heapOrdered q"
        unfolding heapOrdered_iff
      proof (intro allI impI)
        fix i assume "0 < i \<and> i < length q"
        then show "fst (q ! ((i - 1) div 2)) \<le> fst (q ! i)"
          using "1.prems"(2) le by (cases "i = pos") (auto simp: heapExceptUp_def)
      qed
      then show ?thesis
        using True le by (subst pqpush_loop.simps) (simp add: Let_def)
    next
      case nle: False
      have "heapExceptUp (q[?par := q ! pos, pos := q ! ?par]) ?par"
        using heapExceptUp_swap [OF "1.prems"(2) True "1.prems"(1) nle] .
      moreover have "?par < length (q[?par := q ! pos, pos := q ! ?par])"
        using "1.prems"(1) by simp
      ultimately have "heapOrdered (pqpush_loop (q[?par := q ! pos, pos := q ! ?par]) ?par)"
        using "1.IH" [of ?par] True nle by simp
      then show ?thesis
        using True nle by (subst pqpush_loop.simps) (simp add: Let_def)
    qed
  qed
qed

lemma heapExceptUp_append: "heapOrdered q \<Longrightarrow> heapExceptUp (q @ [v]) (length q)"
  unfolding heapExceptUp_def heapOrdered_iff
proof (intro conjI allI impI)
  fix i
  assume h: "\<forall>i. 0 < i \<and> i < length q \<longrightarrow> fst (q ! ((i - 1) div 2)) \<le> fst (q ! i)"
    and "0 < i \<and> i < length (q @ [v]) \<and> i \<noteq> length q"
  then have i: "0 < i" "i < length q" by simp_all
  then have "(i - 1) div 2 < length q" by simp
  then show "fst ((q @ [v]) ! ((i - 1) div 2)) \<le> fst ((q @ [v]) ! i)"
    using h i by (simp add: nth_append)
next
  fix i
  assume "0 < i \<and> i < length (q @ [v]) \<and> (i - 1) div 2 = length q \<and> 0 < length q"
  then have "0 < i" "i \<le> length q" "(i - 1) div 2 = length q" by simp_all
  then have False using par_less [of i] by simp
  then show "fst ((q @ [v]) ! ((length q - 1) div 2)) \<le> fst ((q @ [v]) ! i)" ..
qed

lemma heapOrdered_pqpush: "heapOrdered q \<Longrightarrow> heapOrdered (pqpush q v)"
  unfolding pqpush_def Let_def
  by (rule heapOrdered_pqpush_loop) (simp_all add: heapExceptUp_append)

lemma mset_pqpush: "mset (pqpush q v) = add_mset v (mset q)"
  unfolding pqpush_def Let_def by (subst mset_pqpush_loop) simp_all

lemma length_pqpop_loop [simp]: "length (pqpop_loop q pos leftpos) = length q"
  by (induction q pos leftpos rule: pqpop_loop.induct)
    (subst pqpop_loop.simps, simp add: Let_def)

lemma children: "0 < i \<and> (i - 1) div 2 = pos \<longleftrightarrow> i = pos * 2 + 1 \<or> i = pos * 2 + 2"
  for i pos :: nat
  by arith

lemma pqpop_loop_unfold:
  "pqpop_loop q pos (pos * 2 + 1) =
     (if pos * 2 + 1 < length q then
        (if minChild q pos = pos then q
         else pqpop_loop (q[pos := q ! minChild q pos, minChild q pos := q ! pos])
                (minChild q pos) (minChild q pos * 2 + 1))
      else q)"
  by (subst pqpop_loop.simps) (simp add: minChild_def Let_def)

lemma minChild_stay:
  assumes "pos * 2 + 1 < length q" "minChild q pos = pos"
    and "0 < i" "i < length q" "(i - 1) div 2 = pos"
  shows "fst (q ! pos) \<le> fst (q ! i)"
proof -
  from assms(3,5) have "i = pos * 2 + 1 \<or> i = pos * 2 + 2"
    using children [of i pos] by simp
  then show ?thesis
    using assms(1,2,4) by (auto simp: minChild_def Let_def split: if_splits)
qed

lemma minChild_move:
  assumes "pos * 2 + 1 < length q" "minChild q pos \<noteq> pos"
  shows "minChild q pos < length q" "(minChild q pos - 1) div 2 = pos" "pos < minChild q pos"
    "fst (q ! minChild q pos) < fst (q ! pos)"
    "\<And>i. 0 < i \<Longrightarrow> i < length q \<Longrightarrow> (i - 1) div 2 = pos \<Longrightarrow>
        fst (q ! minChild q pos) \<le> fst (q ! i)"
proof -
  show "minChild q pos < length q" "(minChild q pos - 1) div 2 = pos" "pos < minChild q pos"
    "fst (q ! minChild q pos) < fst (q ! pos)"
    using assms by (auto simp: minChild_def Let_def split: if_splits)
next
  fix i
  assume "0 < i" "i < length q" "(i - 1) div 2 = pos"
  then have "i = pos * 2 + 1 \<or> i = pos * 2 + 2"
    using children [of i pos] by simp
  then show "fst (q ! minChild q pos) \<le> fst (q ! i)"
    using assms \<open>i < length q\<close> by (auto simp: minChild_def Let_def split: if_splits)
qed

lemma mset_pqpop_loop: "pos < length q \<Longrightarrow> mset (pqpop_loop q pos (pos * 2 + 1)) = mset q"
proof (induction "length q - pos" arbitrary: q pos rule: less_induct)
  case less
  show ?case
  proof (cases "pos * 2 + 1 < length q \<and> minChild q pos \<noteq> pos")
    case True
    let ?m = "minChild q pos"
    let ?q = "q[pos := q ! ?m, ?m := q ! pos]"
    have m: "?m < length q" "pos < ?m"
      using minChild_move(1,3) True by blast+
    then have "length ?q - ?m < length q - pos"
      by simp
    then have "mset (pqpop_loop ?q ?m (?m * 2 + 1)) = mset ?q"
      using less.hyps [of ?q ?m] m by simp
    also have "\<dots> = mset q"
      using mset_swap [OF m(1) less.prems] by simp
    finally show ?thesis
      using True by (subst pqpop_loop_unfold) simp
  next
    case False
    then show ?thesis
      by (subst pqpop_loop_unfold) auto
  qed
qed

lemma heapExceptDown_swap:
  assumes h: "heapExceptDown q pos" and m: "m < length q" "(m - 1) div 2 = pos" "pos < m"
    and lt: "fst (q ! m) < fst (q ! pos)"
    and least: "\<And>i. 0 < i \<Longrightarrow> i < length q \<Longrightarrow> (i - 1) div 2 = pos \<Longrightarrow> fst (q ! m) \<le> fst (q ! i)"
  shows "heapExceptDown (q[pos := q ! m, m := q ! pos]) m"
proof -
  let ?q = "q[pos := q ! m, m := q ! pos]"
  have nth: "?q ! i = (if i = m then q ! pos else if i = pos then q ! m else q ! i)"
    if "i < length q" for i
    using that m by (simp add: nth_list_update)
  have h1: "fst (q ! ((i - 1) div 2)) \<le> fst (q ! i)"
    if "0 < i" "i < length q" "(i - 1) div 2 \<noteq> pos" for i
    using h that by (simp add: heapExceptDown_def)
  have h2: "fst (q ! ((pos - 1) div 2)) \<le> fst (q ! i)"
    if "0 < i" "i < length q" "(i - 1) div 2 = pos" "0 < pos" for i
    using h that by (simp add: heapExceptDown_def)
  have posl: "pos < length q"
    using m by simp
  show ?thesis
    unfolding heapExceptDown_def
  proof (intro conjI allI impI)
    fix i
    assume "0 < i \<and> i < length ?q \<and> (i - 1) div 2 \<noteq> m"
    then have i: "0 < i" "i < length q" "(i - 1) div 2 \<noteq> m"
      by simp_all
    have pi: "(i - 1) div 2 < length q" "(i - 1) div 2 < i"
      using i(2) par_less [OF i(1)] by simp_all
    consider "i = m" | "i = pos" | "i \<noteq> m" "i \<noteq> pos" "(i - 1) div 2 = pos"
      | "i \<noteq> m" "i \<noteq> pos" "(i - 1) div 2 \<noteq> pos"
      by blast
    then show "fst (?q ! ((i - 1) div 2)) \<le> fst (?q ! i)"
    proof cases
      case 1
      then show ?thesis
        using nth [of m] nth [of pos] m posl lt by simp
    next
      case 2
      have pp: "(pos - 1) div 2 < pos"
        using 2 i(1) by (simp add: par_less)
      then have "?q ! ((pos - 1) div 2) = q ! ((pos - 1) div 2)"
        using nth [of "(pos - 1) div 2"] posl m by simp
      moreover have "fst (q ! ((pos - 1) div 2)) \<le> fst (q ! m)"
        using h2 [of m] m 2 i(1) by simp
      ultimately show ?thesis
        using 2 nth [of pos] posl m by simp
    next
      case 3
      then show ?thesis
        using nth [of i] nth [of pos] i posl m least [of i] by simp
    next
      case 4
      then show ?thesis
        using nth [of i] nth [of "(i - 1) div 2"] i pi h1 [of i] by simp
    qed
  next
    fix i
    assume "0 < i \<and> i < length ?q \<and> (i - 1) div 2 = m \<and> 0 < m"
    then have i: "0 < i" "i < length q" "(i - 1) div 2 = m"
      by simp_all
    have gt: "m < i"
      using par_less [OF i(1)] i(3) by simp
    have "fst (q ! m) \<le> fst (q ! i)"
      using h1 [of i] i m by simp
    then show "fst (?q ! ((m - 1) div 2)) \<le> fst (?q ! i)"
      using nth [of i] nth [of pos] i gt m posl by simp
  qed
qed

lemma heapOrdered_pqpop_loop:
  "pos < length q \<Longrightarrow> heapExceptDown q pos \<Longrightarrow> heapOrdered (pqpop_loop q pos (pos * 2 + 1))"
proof (induction "length q - pos" arbitrary: q pos rule: less_induct)
  case less
  show ?case
  proof (cases "pos * 2 + 1 < length q")
    case False
    have "heapOrdered q"
      unfolding heapOrdered_iff
    proof (intro allI impI)
      fix i assume i: "0 < i \<and> i < length q"
      then have "(i - 1) div 2 \<noteq> pos"
        using False children [of i pos] by auto
      then show "fst (q ! ((i - 1) div 2)) \<le> fst (q ! i)"
        using less.prems(2) i by (simp add: heapExceptDown_def)
    qed
    then show ?thesis
      using False by (subst pqpop_loop_unfold) simp
  next
    case True
    show ?thesis
    proof (cases "minChild q pos = pos")
      case stay: True
      have "heapOrdered q"
        unfolding heapOrdered_iff
      proof (intro allI impI)
        fix i assume i: "0 < i \<and> i < length q"
        show "fst (q ! ((i - 1) div 2)) \<le> fst (q ! i)"
        proof (cases "(i - 1) div 2 = pos")
          case True
          then show ?thesis
            using minChild_stay [OF \<open>pos * 2 + 1 < length q\<close> stay, of i] i by simp
        next
          case False
          then show ?thesis
            using less.prems(2) i by (simp add: heapExceptDown_def)
        qed
      qed
      then show ?thesis
        using True stay by (subst pqpop_loop_unfold) simp
    next
      case move: False
      let ?m = "minChild q pos"
      let ?q = "q[pos := q ! ?m, ?m := q ! pos]"
      note mc = minChild_move [OF True move]
      have "heapExceptDown ?q ?m"
        using heapExceptDown_swap [OF less.prems(2) mc(1,2,3,4)] mc(5) by blast
      moreover have "length ?q - ?m < length q - pos" "?m < length ?q"
        using mc(1,3) by simp_all
      ultimately have "heapOrdered (pqpop_loop ?q ?m (?m * 2 + 1))"
        using less.hyps [of ?q ?m] by blast
      then show ?thesis
        using True move by (subst pqpop_loop_unfold) simp
    qed
  qed
qed

lemma heapOrdered_min:
  "heapOrdered q \<Longrightarrow> i < length q \<Longrightarrow> fst (q ! 0) \<le> fst (q ! i)"
proof (induction i rule: less_induct)
  case (less i)
  show ?case
  proof (cases "i = 0")
    case True
    then show ?thesis by simp
  next
    case False
    then have i: "0 < i" by simp
    have "fst (q ! 0) \<le> fst (q ! ((i - 1) div 2))"
      using less.IH [of "(i - 1) div 2"] less.prems par_less [OF i] by simp
    also have "\<dots> \<le> fst (q ! i)"
      using less.prems i by (simp add: heapOrdered_iff)
    finally show ?thesis .
  qed
qed

lemma heapExceptDown_replace_root:
  assumes "heapOrdered q" "2 \<le> length q"
  shows "heapExceptDown ((butlast q)[0 := last q]) 0"
  unfolding heapExceptDown_def
proof (intro conjI allI impI)
  fix i
  assume "0 < i \<and> i < length ((butlast q)[0 := last q]) \<and> (i - 1) div 2 \<noteq> 0"
  then have i: "0 < i" "i < length q - 1" "(i - 1) div 2 \<noteq> 0"
    by simp_all
  have "(i - 1) div 2 < length q - 1"
    using i(2) par_less [OF i(1)] by simp
  then show "fst ((butlast q)[0 := last q] ! ((i - 1) div 2)) \<le> fst ((butlast q)[0 := last q] ! i)"
    using i assms(1) by (simp add: nth_butlast heapOrdered_iff)
qed simp

lemma heapOrdered_Nil [simp]: "heapOrdered []"
  by (simp add: heapOrdered_iff)

lemma heapOrdered_tl_single: "length q < 2 \<Longrightarrow> heapOrdered (tl q)"
  by (cases q) (simp_all add: heapOrdered_iff)

lemma heapOrdered_pqpop: "heapOrdered q \<Longrightarrow> heapOrdered (snd (pqpop q))"
proof (cases "2 \<le> length q")
  case True
  assume h: "heapOrdered q"
  have "heapOrdered (pqpop_loop ((butlast q)[0 := last q]) 0 (0 * 2 + 1))"
    using heapExceptDown_replace_root [OF h True] True
    by (intro heapOrdered_pqpop_loop) simp_all
  then show ?thesis
    using True by (simp add: pqpop_def Let_def)
next
  case False
  assume "heapOrdered q"
  then show ?thesis
    using False heapOrdered_tl_single [of q] by (simp add: pqpop_def)
qed

lemma pqpop_result:
  "fst (pqpop q) = (if q = [] then None else Some (q ! 0))"
  by (cases q) (simp_all add: pqpop_def Let_def)

lemma mset_pqpop:
  assumes "q \<noteq> []"
  shows "add_mset (q ! 0) (mset (snd (pqpop q))) = mset q"
proof (cases "2 \<le> length q")
  case True
  then obtain a b q' where q: "q = a # b # q'"
    by (cases q; cases "tl q") auto
  have bl: "butlast q = a # butlast (b # q')" "butlast (b # q') @ [last q] = b # q'"
    using q by simp_all
  have "mset (pqpop_loop ((butlast q)[0 := last q]) 0 (0 * 2 + 1)) = mset ((butlast q)[0 := last q])"
    using True by (intro mset_pqpop_loop) simp
  also have "\<dots> = mset (last q # butlast (b # q'))"
    using bl(1) by simp
  also have "\<dots> = mset (butlast (b # q') @ [last q])"
    by simp
  also have "\<dots> = mset (b # q')"
    using bl(2) by simp
  finally show ?thesis
    using True q by (simp add: pqpop_def Let_def)
next
  case False
  then have "length q = Suc 0"
    using assms by (cases q) (simp_all add: not_le)
  then obtain a where "q = [a]"
    by (auto simp: length_Suc_conv)
  then show ?thesis
    by (simp add: pqpop_def)
qed

text \<open>
  C9. For every array \<open>q\<close> in heap order: \<open>pqpush(q, v)\<close> leaves an array in heap
  order that holds the elements of \<open>q\<close> and \<open>v\<close>; \<open>pqpop(q)\<close> leaves an array in heap
  order, returns \<open>undefined\<close> exactly when \<open>q\<close> is empty, and otherwise returns an
  element of \<open>q\<close> whose priority is least among the elements of \<open>q\<close>, and removes just
  that element.
\<close>

theorem pq_heap_order:
  assumes "heapOrdered q"
  shows "heapOrdered (pqpush q v) \<and> mset (pqpush q v) = add_mset v (mset q) \<and>
         heapOrdered (snd (pqpop q)) \<and>
         (fst (pqpop q) = None \<longleftrightarrow> q = []) \<and>
         (\<forall>e. fst (pqpop q) = Some e \<longrightarrow>
            e \<in> set q \<and> (\<forall>e'\<in>set q. fst e \<le> fst e') \<and>
            add_mset e (mset (snd (pqpop q))) = mset q)"
proof (intro conjI allI impI)
  show "heapOrdered (pqpush q v)"
    using assms by (rule heapOrdered_pqpush)
  show "mset (pqpush q v) = add_mset v (mset q)"
    by (rule mset_pqpush)
  show "heapOrdered (snd (pqpop q))"
    using assms by (rule heapOrdered_pqpop)
  show "fst (pqpop q) = None \<longleftrightarrow> q = []"
    by (simp add: pqpop_result)
next
  fix e
  assume "fst (pqpop q) = Some e"
  then have q: "q \<noteq> []" and e: "e = q ! 0"
    by (auto simp: pqpop_result split: if_splits)
  show "e \<in> set q"
    using q e by simp
  show "\<forall>e'\<in>set q. fst e \<le> fst e'"
  proof
    fix e'
    assume "e' \<in> set q"
    then obtain i where "i < length q" "q ! i = e'"
      by (auto simp: in_set_conv_nth)
    then show "fst e \<le> fst e'"
      using heapOrdered_min [OF assms, of i] e by simp
  qed
  show "add_mset e (mset (snd (pqpop q))) = mset q"
    using mset_pqpop [OF q] e by simp
qed

theorem pq_heap_order_witness:
  "heapOrdered [(1, 10), (3, 30), (2, 20 :: nat)] \<and>
   pqpush [(1, 10), (3, 30), (2, 20 :: nat)] (0, 0) = [(0, 0), (1, 10), (2, 20), (3, 30)] \<and>
   heapOrdered (pqpush [(1, 10), (3, 30), (2, 20 :: nat)] (0, 0)) \<and>
   pqpop [(1, 10), (3, 30), (2, 20 :: nat)] = (Some (1, 10), [(2, 20), (3, 30)]) \<and>
   heapOrdered (snd (pqpop [(1, 10), (3, 30), (2, 20 :: nat)]))"
proof -
  have h: "heapOrdered [(1, 10), (3, 30), (2, 20 :: nat)]"
    by code_simp
  have "pqpush [(1, 10), (3, 30), (2, 20 :: nat)] (0, 0) = [(0, 0), (1, 10), (2, 20), (3, 30)]"
    by code_simp
  moreover have "pqpop [(1, 10), (3, 30), (2, 20 :: nat)] = (Some (1, 10), [(2, 20), (3, 30)])"
    by code_simp
  ultimately show ?thesis
    using h pq_heap_order [OF h, of "(0, 0)"] by simp
qed

end
